theory Spec2Isabelle
  imports Complex_Main
begin

section \<open>The dual icosphere graph (landlab/graph/quasi\_spherical/dual\_icosphere.py)\<close>

text \<open>
  The class \<open>DualIcosphereGraph\<close> is embedded as a record of its attributes; every
  builder method takes the record and returns either the updated record or the Python
  exception that the method raises. Floating-point numbers are idealised as reals.
  Integer arrays hold unbounded integers (entries are assumed to fit the 64-bit
  element type of the numpy arrays).
\<close>

subsection \<open>Exceptions and numpy indexing\<close>

datatype py_error = IndexError | KeyError | TypeError | AttributeError | ValueError

type_synonym vec3 = "real \<times> real \<times> real"

text \<open>Sequencing of fallible steps: the first exception ends the computation.\<close>

definition ebind :: "py_error + 'a \<Rightarrow> ('a \<Rightarrow> py_error + 'b) \<Rightarrow> py_error + 'b" where
  "ebind m f = (case m of Inl e \<Rightarrow> Inl e | Inr x \<Rightarrow> f x)"

text \<open>
  numpy resolves an index \<open>i\<close> on an axis of size \<open>n\<close>: \<open>0 \<le> i < n\<close> is taken as it
  is, \<open>-n \<le> i < 0\<close> counts from the end, anything else raises IndexError.
\<close>

definition np_index :: "nat \<Rightarrow> int \<Rightarrow> py_error + nat" where
  "np_index n i =
     (if 0 \<le> i \<and> i < int n then Inr (nat i)
      else if - int n \<le> i \<and> i < 0 then Inr (nat (int n + i))
      else Inl IndexError)"

definition np_get :: "'a list \<Rightarrow> int \<Rightarrow> py_error + 'a" where
  "np_get xs i = ebind (np_index (length xs) i) (\<lambda>j. Inr (xs ! j))"

definition np_set :: "'a list \<Rightarrow> int \<Rightarrow> 'a \<Rightarrow> py_error + 'a list" where
  "np_set xs i v = ebind (np_index (length xs) i) (\<lambda>j. Inr (xs[j := v]))"

definition np_get2 :: "'a list list \<Rightarrow> int \<Rightarrow> int \<Rightarrow> py_error + 'a" where
  "np_get2 xss i j = ebind (np_get xss i) (\<lambda>row. np_get row j)"

definition np_set2 :: "'a list list \<Rightarrow> int \<Rightarrow> int \<Rightarrow> 'a \<Rightarrow> py_error + 'a list list" where
  "np_set2 xss i j v =
     ebind (np_index (length xss) i) (\<lambda>r.
     ebind (np_set (xss ! r) j v) (\<lambda>row. Inr (xss[r := row])))"

subsection \<open>The numerical kernel\<close>

text \<open>
  The functions imported from \<open>landlab.utils.geometry.spherical\<close> are not part of the
  sources at hand; the builders take them as a parameter. Each acts on single points;
  the vectorised calls of the source apply them element by element.

  \<open>argsort\<close> is \<open>np.argsort\<close>, which the source calls with its default kind. That kind
  is not a stable sort: the library returns indices that put the array in ascending
  order and leaves the order of the indices of equal entries open. The function is
  therefore a parameter as well, and nothing below fixes the order among equal entries.
\<close>

record kernel =
  arc_length :: "vec3 \<Rightarrow> vec3 \<Rightarrow> real \<Rightarrow> real"
  area_of_sphertri :: "vec3 \<Rightarrow> vec3 \<Rightarrow> vec3 \<Rightarrow> real \<Rightarrow> real"
  cartesian_to_spherical :: "real \<Rightarrow> real \<Rightarrow> real \<Rightarrow> real \<times> real \<times> real"
  rotate_zy :: "real \<Rightarrow> real \<Rightarrow> real \<Rightarrow> real \<Rightarrow> real \<Rightarrow> real \<times> real \<times> real"
  argsort :: "real list \<Rightarrow> nat list"

subsection \<open>The graph object\<close>

record graph =
  radius :: real
  coords_of_node :: "vec3 list"
  number_of_nodes :: nat
  links :: "(int \<times> int \<times> int) list"
  nodes_at_link :: "int list list"
  links_at_node :: "int list list"
  link_dirs_at_node :: "int list list"
  number_of_links :: nat
  length_of_link :: "real list"
  number_of_corners :: nat
  number_of_patches :: nat
  nodes_at_patch :: "int list list"
  corners_at_node :: "int list list"
  coords_of_corner :: "vec3 list"
  number_of_faces :: nat
  corners_at_face :: "int list list"
  length_of_face :: "real list"
  number_of_cells :: nat
  area_of_cell :: "real list"
  memo_cell_at_node :: "int list option"
  memo_face_at_link :: "int list option"
  memo_area_of_patch :: "real list option"
  memo_r_of_node :: "real list option"
  memo_phi_of_node :: "real list option"
  memo_theta_of_node :: "real list option"

text \<open>A fresh object: no attribute has been set, no memo exists.\<close>

definition new_graph :: "real \<Rightarrow> graph" where
  "new_graph r =
     \<lparr>radius = r, coords_of_node = [], number_of_nodes = 0, links = [],
      nodes_at_link = [], links_at_node = [], link_dirs_at_node = [],
      number_of_links = 0, length_of_link = [], number_of_corners = 0,
      number_of_patches = 0, nodes_at_patch = [], corners_at_node = [],
      coords_of_corner = [], number_of_faces = 0, corners_at_face = [],
      length_of_face = [], number_of_cells = 0, area_of_cell = [],
      memo_cell_at_node = None, memo_face_at_link = None, memo_area_of_patch = None,
      memo_r_of_node = None, memo_phi_of_node = None, memo_theta_of_node = None\<rparr>"

subsection \<open>setup\_nodes\<close>

definition setup_nodes :: "vec3 list \<Rightarrow> graph \<Rightarrow> graph" where
  "setup_nodes ico_vertices g =
     g\<lparr>coords_of_node := ico_vertices, number_of_nodes := length ico_vertices\<rparr>"

subsection \<open>add\_link and setup\_links\<close>

text \<open>
  \<open>self.links\<close> is a dictionary; Python dictionaries keep insertion order, and
  \<open>setup_links\<close> iterates over \<open>self.links.values()\<close>, so the dictionary is an
  association list in insertion order with distinct keys.
\<close>

definition link_key :: "int \<Rightarrow> int \<Rightarrow> int" where
  "link_key p1 p2 = push_bit 32 (min p1 p2) + max p1 p2"

definition add_link :: "int \<Rightarrow> int \<Rightarrow> (int \<times> int \<times> int) list \<Rightarrow> (int \<times> int \<times> int) list" where
  "add_link p1 p2 ls =
     (let key = link_key p1 p2
      in if map_of ls key = None then ls @ [(key, (p1, p2))] else ls)"

fun add_faces :: "(int \<times> int \<times> int) list \<Rightarrow> (int \<times> int \<times> int) list \<Rightarrow> (int \<times> int \<times> int) list" where
  "add_faces [] ls = ls"
| "add_faces ((a, b, c) # fs) ls = add_faces fs (add_link c a (add_link b c (add_link a b ls)))"

text \<open>
  The local state of the second loop of \<open>setup_links\<close>: the four arrays it writes and
  the per-node slot counter \<open>link_at_node_index\<close>.
\<close>

record link_tables =
  lt_nodes_at_link :: "int list list"
  lt_links_at_node :: "int list list"
  lt_link_dirs_at_node :: "int list list"
  lt_link_at_node_index :: "int list"
  lt_length_of_link :: "real list"

text \<open>
  The four statements that enter link \<open>i\<close> at one of its end nodes: the node is
  written to column \<open>col\<close> of \<open>nodes_at_link\<close>, the link and its direction sign to
  the node's next free slot, and the slot counter is advanced. The source writes them
  once for the tail (column 0, sign -1) and once for the head (column 1, sign 1).
\<close>

definition enter_link_end :: "int \<Rightarrow> int \<Rightarrow> int \<Rightarrow> int \<Rightarrow> link_tables \<Rightarrow> py_error + link_tables" where
  "enter_link_end i col node dir t =
     ebind (np_set2 (lt_nodes_at_link t) i col node) (\<lambda>nal.
     ebind (np_get (lt_link_at_node_index t) node) (\<lambda>k.
     ebind (np_set2 (lt_links_at_node t) node k i) (\<lambda>lan.
     ebind (np_set2 (lt_link_dirs_at_node t) node k dir) (\<lambda>ldn.
     ebind (np_set (lt_link_at_node_index t) node (k + 1)) (\<lambda>idx.
     Inr (t\<lparr>lt_nodes_at_link := nal, lt_links_at_node := lan,
            lt_link_dirs_at_node := ldn, lt_link_at_node_index := idx\<rparr>))))))"

definition link_body :: "kernel \<Rightarrow> real \<Rightarrow> vec3 list \<Rightarrow> int \<Rightarrow> int \<times> int \<Rightarrow> link_tables \<Rightarrow> py_error + link_tables" where
  "link_body K r cn i link t =
     (let tail = fst link; head = snd link in
      ebind (enter_link_end i 0 tail (- 1) t) (\<lambda>t1.
      ebind (enter_link_end i 1 head 1 t1) (\<lambda>t2.
      ebind (np_get cn tail) (\<lambda>p.
      ebind (np_get cn head) (\<lambda>q.
      ebind (np_set (lt_length_of_link t2) i (r * arc_length K p q r)) (\<lambda>lol.
      Inr (t2\<lparr>lt_length_of_link := lol\<rparr>)))))))"

fun link_loop :: "kernel \<Rightarrow> real \<Rightarrow> vec3 list \<Rightarrow> (int \<times> int) list \<Rightarrow> int \<Rightarrow> link_tables \<Rightarrow> py_error + link_tables" where
  "link_loop K r cn [] i t = Inr t"
| "link_loop K r cn (link # ls) i t =
     ebind (link_body K r cn i link t) (\<lambda>t'. link_loop K r cn ls (i + 1) t')"

definition setup_links :: "kernel \<Rightarrow> (int \<times> int \<times> int) list \<Rightarrow> graph \<Rightarrow> py_error + graph" where
  "setup_links K ico_faces g =
     (let ls = add_faces ico_faces [];
          n = number_of_nodes g;
          t0 = \<lparr>lt_nodes_at_link = replicate ((3 * length ico_faces) div 2) [0, 0],
                lt_links_at_node = replicate n (replicate 6 (- 1)),
                lt_link_dirs_at_node = replicate n (replicate 6 0),
                lt_link_at_node_index = replicate n 0,
                lt_length_of_link = replicate (length ls) 0\<rparr>
      in ebind (link_loop K (radius g) (coords_of_node g) (map snd ls) 0 t0) (\<lambda>t.
         Inr (g\<lparr>links := ls,
                nodes_at_link := lt_nodes_at_link t,
                links_at_node := lt_links_at_node t,
                link_dirs_at_node := lt_link_dirs_at_node t,
                number_of_links := length ls,
                length_of_link := lt_length_of_link t\<rparr>)))"

subsection \<open>Lazily computed properties\<close>

text \<open>
  A property tries the private attribute first and computes it when the attribute does not
  exist yet. The private attribute is an optional field of the record; a property
  returns its value together with the object, whose memo it may have filled.
\<close>

definition cell_at_node :: "graph \<Rightarrow> int list \<times> graph" where
  "cell_at_node g =
     (case memo_cell_at_node g of
        Some v \<Rightarrow> (v, g)
      | None \<Rightarrow> (let v = map int [0..<number_of_nodes g]
                 in (v, g\<lparr>memo_cell_at_node := Some v\<rparr>)))"

definition node_at_cell :: "graph \<Rightarrow> int list \<times> graph" where
  "node_at_cell g = cell_at_node g"

definition face_at_link :: "graph \<Rightarrow> int list \<times> graph" where
  "face_at_link g =
     (case memo_face_at_link g of
        Some v \<Rightarrow> (v, g)
      | None \<Rightarrow> (let v = map int [0..<number_of_links g]
                 in (v, g\<lparr>memo_face_at_link := Some v\<rparr>)))"

definition link_at_face :: "graph \<Rightarrow> int list \<times> graph" where
  "link_at_face g = face_at_link g"

definition patches_at_node :: "graph \<Rightarrow> int list list" where
  "patches_at_node g = corners_at_node g"

definition corners_at_cell :: "graph \<Rightarrow> int list list" where
  "corners_at_cell g = corners_at_node g"

definition faces_at_cell :: "graph \<Rightarrow> int list list" where
  "faces_at_cell g = links_at_node g"

text \<open>The body of \<open>_calc_area_of_patch\<close> is \<open>pass\<close>: it sets no attribute.\<close>

definition calc_area_of_patch :: "graph \<Rightarrow> graph" where
  "calc_area_of_patch g = g"

text \<open>
  \<open>area_of_patch\<close> calls \<open>self._calc_area_of_patch(self)\<close>: a bound method of one
  parameter called with a second positional argument. Python raises TypeError before the
  body is entered.
\<close>

definition area_of_patch :: "graph \<Rightarrow> py_error + real list \<times> graph" where
  "area_of_patch g =
     (case memo_area_of_patch g of
        Some v \<Rightarrow> Inr (v, g)
      | None \<Rightarrow> Inl TypeError)"

definition setup_node_spherical_coords :: "kernel \<Rightarrow> graph \<Rightarrow> graph" where
  "setup_node_spherical_coords K g =
     (let s = map (\<lambda>(x, y, z). cartesian_to_spherical K x y z) (coords_of_node g)
      in g\<lparr>memo_r_of_node := Some (map fst s),
            memo_phi_of_node := Some (map (\<lambda>t. fst (snd t)) s),
            memo_theta_of_node := Some (map (\<lambda>t. snd (snd t)) s)\<rparr>)"

definition r_of_node :: "kernel \<Rightarrow> graph \<Rightarrow> py_error + real list \<times> graph" where
  "r_of_node K g =
     (case memo_r_of_node g of
        Some v \<Rightarrow> Inr (v, g)
      | None \<Rightarrow> (let g' = setup_node_spherical_coords K g
                 in case memo_r_of_node g' of
                      Some v \<Rightarrow> Inr (v, g')
                    | None \<Rightarrow> Inl AttributeError))"

definition phi_of_node :: "kernel \<Rightarrow> graph \<Rightarrow> py_error + real list \<times> graph" where
  "phi_of_node K g =
     (case memo_phi_of_node g of
        Some v \<Rightarrow> Inr (v, g)
      | None \<Rightarrow> (let g' = setup_node_spherical_coords K g
                 in case memo_phi_of_node g' of
                      Some v \<Rightarrow> Inr (v, g')
                    | None \<Rightarrow> Inl AttributeError))"

definition theta_of_node :: "kernel \<Rightarrow> graph \<Rightarrow> py_error + real list \<times> graph" where
  "theta_of_node K g =
     (case memo_theta_of_node g of
        Some v \<Rightarrow> Inr (v, g)
      | None \<Rightarrow> (let g' = setup_node_spherical_coords K g
                 in case memo_theta_of_node g' of
                      Some v \<Rightarrow> Inr (v, g')
                    | None \<Rightarrow> Inl AttributeError))"

subsection \<open>set\_coords\_of\_corner\<close>

text \<open>Applying a fallible function to every element, stopping at the first exception.\<close>

fun emap :: "('a \<Rightarrow> py_error + 'b) \<Rightarrow> 'a list \<Rightarrow> py_error + 'b list" where
  "emap f [] = Inr []"
| "emap f (x # xs) = ebind (f x) (\<lambda>y. ebind (emap f xs) (\<lambda>ys. Inr (y # ys)))"

definition vsub :: "vec3 \<Rightarrow> vec3 \<Rightarrow> vec3" where
  "vsub p q = (case p of (a, b, c) \<Rightarrow> case q of (d, e, f) \<Rightarrow> (a - d, b - e, c - f))"

definition cross :: "vec3 \<Rightarrow> vec3 \<Rightarrow> vec3" where
  "cross u v =
     (case u of (a, b, c) \<Rightarrow> case v of (d, e, f) \<Rightarrow>
        (b * f - c * e, c * d - a * f, a * e - b * d))"

definition veclen :: "vec3 \<Rightarrow> real" where
  "veclen p = (case p of (x, y, z) \<Rightarrow> sqrt (x\<^sup>2 + y\<^sup>2 + z\<^sup>2))"

text \<open>
  The normal of one patch, scaled: each coordinate of the cross product is multiplied by
  \<open>radius / veclen\<close>. For a zero cross product numpy yields nan without raising; the
  reals have no such value, and the statements about corner coordinates assume a nonzero
  cross product.
\<close>

definition corner_of_patch :: "real \<Rightarrow> vec3 \<Rightarrow> vec3 \<Rightarrow> vec3 \<Rightarrow> vec3" where
  "corner_of_patch r p0 p1 p2 =
     (let n = cross (vsub p1 p0) (vsub p2 p0); k = r / veclen n
      in case n of (x, y, z) \<Rightarrow> (x * k, y * k, z * k))"

definition set_coords_of_corner :: "graph \<Rightarrow> py_error + graph" where
  "set_coords_of_corner g =
     ebind (emap (\<lambda>row. ebind (np_get row 0) (np_get (coords_of_node g))) (nodes_at_patch g)) (\<lambda>p0.
     ebind (emap (\<lambda>row. ebind (np_get row 1) (np_get (coords_of_node g))) (nodes_at_patch g)) (\<lambda>p1.
     ebind (emap (\<lambda>row. ebind (np_get row 2) (np_get (coords_of_node g))) (nodes_at_patch g)) (\<lambda>p2.
     Inr (g\<lparr>coords_of_corner :=
              map (\<lambda>(a, b, c). corner_of_patch (radius g) a b c) (zip p0 (zip p1 p2))\<rparr>))))"

subsection \<open>sort\_corners\_ccw\<close>

text \<open>\<open>np.arctan2(y, x)\<close> on the reals (no signed zeros).\<close>

definition arctan2 :: "real \<Rightarrow> real \<Rightarrow> real" where
  "arctan2 y x =
     (if 0 < x then arctan (y / x)
      else if x < 0 then (if 0 \<le> y then arctan (y / x) + pi else arctan (y / x) - pi)
      else if 0 < y then pi / 2
      else if y < 0 then - (pi / 2)
      else 0)"

text \<open>The angle of one rotated corner, moved into \<open>[0, 2 pi)\<close>.\<close>

definition corner_angle :: "kernel \<Rightarrow> real \<Rightarrow> real \<Rightarrow> vec3 \<Rightarrow> real" where
  "corner_angle K phi theta c =
     (case c of (cx, cy, cz) \<Rightarrow>
        case rotate_zy K cx cy cz (- phi) (- theta) of (rcx, rcy, rcz) \<Rightarrow>
          (let ang = arctan2 rcy rcx in if ang < 0 then ang + 2 * pi else ang))"

definition sort_node :: "kernel \<Rightarrow> nat \<Rightarrow> graph \<Rightarrow> py_error + graph" where
  "sort_node K node g =
     ebind (np_get (corners_at_node g) (int node)) (\<lambda>row.
     (let nc = length (filter (\<lambda>c. c + 1 \<noteq> 0) row) in
      ebind (emap (np_get (coords_of_corner g)) (take nc row)) (\<lambda>cs.
      ebind (phi_of_node K g) (\<lambda>(phis, g1).
      ebind (np_get phis (int node)) (\<lambda>phi.
      ebind (theta_of_node K g1) (\<lambda>(thetas, g2).
      ebind (np_get thetas (int node)) (\<lambda>theta.
      (let ang = map (corner_angle K phi theta) cs;
           idx = argsort K ang
       in ebind (emap (np_get row) (map int idx)) (\<lambda>sorted_row.
          ebind (np_set (corners_at_node g2) (int node) (sorted_row @ drop nc row)) (\<lambda>can.
          Inr (g2\<lparr>corners_at_node := can\<rparr>)))))))))))"

fun sort_nodes :: "kernel \<Rightarrow> nat list \<Rightarrow> graph \<Rightarrow> py_error + graph" where
  "sort_nodes K [] g = Inr g"
| "sort_nodes K (node # ns) g = ebind (sort_node K node g) (sort_nodes K ns)"

definition sort_corners_ccw :: "kernel \<Rightarrow> graph \<Rightarrow> py_error + graph" where
  "sort_corners_ccw K g = sort_nodes K [0..<number_of_nodes g] g"

subsection \<open>setup\_patches\_and\_corners\<close>

text \<open>One pass of the inner loop: patch \<open>p\<close> is entered at the next free slot of \<open>node\<close>.\<close>

definition enter_corner :: "int \<Rightarrow> int \<Rightarrow> int list list \<times> int list \<Rightarrow> py_error + int list list \<times> int list" where
  "enter_corner p node s =
     (case s of (can, idx) \<Rightarrow>
        ebind (np_get idx node) (\<lambda>k.
        ebind (np_set2 can node k p) (\<lambda>can'.
        ebind (np_set idx node (k + 1)) (\<lambda>idx'.
        Inr (can', idx')))))"

fun patch_loop :: "(int \<times> int \<times> int) list \<Rightarrow> int \<Rightarrow> int list list \<times> int list \<Rightarrow> py_error + int list list \<times> int list" where
  "patch_loop [] p s = Inr s"
| "patch_loop ((a, b, c) # fs) p s =
     ebind (enter_corner p a s) (\<lambda>s1.
     ebind (enter_corner p b s1) (\<lambda>s2.
     ebind (enter_corner p c s2) (\<lambda>s3.
     patch_loop fs (p + 1) s3)))"

definition setup_patches_and_corners :: "kernel \<Rightarrow> (int \<times> int \<times> int) list \<Rightarrow> graph \<Rightarrow> py_error + graph" where
  "setup_patches_and_corners K ico_faces g =
     (let n = number_of_nodes g in
      ebind (patch_loop ico_faces 0 (replicate n (replicate 6 (- 1)), replicate n 0)) (\<lambda>(can, idx).
      ebind (set_coords_of_corner
               (g\<lparr>number_of_corners := length ico_faces,
                  number_of_patches := length ico_faces,
                  nodes_at_patch := map (\<lambda>(a, b, c). [a, b, c]) ico_faces,
                  corners_at_node := can\<rparr>)) (\<lambda>g1.
      sort_corners_ccw K g1)))"

subsection \<open>setup\_faces\<close>

text \<open>
  A value of the dictionary \<open>patches_at_node_pair\<close>: a single patch index, or the tuple
  of two.
\<close>

datatype patch_entry = One int | Two int int

definition register_edge :: "int list list \<Rightarrow> int \<Rightarrow> int \<Rightarrow> (int \<times> int \<Rightarrow> patch_entry option) \<Rightarrow> py_error + (int \<times> int \<Rightarrow> patch_entry option)" where
  "register_edge nap i j d =
     ebind (np_get2 nap i (j - 1)) (\<lambda>n1.
     ebind (np_get2 nap i j) (\<lambda>n2.
     (let key = (min n1 n2, max n1 n2) in
      case d key of
        None \<Rightarrow> Inr (d(key \<mapsto> One i))
      | Some (One patch1) \<Rightarrow> Inr (d(key \<mapsto> Two (min i patch1) (max i patch1)))
      | Some (Two a b) \<Rightarrow> Inl TypeError)))"

fun pair_loop :: "int list list \<Rightarrow> int list \<Rightarrow> (int \<times> int \<Rightarrow> patch_entry option) \<Rightarrow> py_error + (int \<times> int \<Rightarrow> patch_entry option)" where
  "pair_loop nap [] d = Inr d"
| "pair_loop nap (i # is) d =
     ebind (register_edge nap i 0 d) (\<lambda>d0.
     ebind (register_edge nap i 1 d0) (\<lambda>d1.
     ebind (register_edge nap i 2 d1) (\<lambda>d2.
     pair_loop nap is d2)))"

text \<open>Python's \<open>min\<close> and \<open>max\<close> of a sequence raise ValueError on an empty one.\<close>

fun py_min :: "int list \<Rightarrow> py_error + int" where
  "py_min [] = Inl ValueError"
| "py_min (x # xs) = Inr (fold min xs x)"

fun py_max :: "int list \<Rightarrow> py_error + int" where
  "py_max [] = Inl ValueError"
| "py_max (x # xs) = Inr (fold max xs x)"

definition face_of_link :: "kernel \<Rightarrow> graph \<Rightarrow> (int \<times> int \<Rightarrow> patch_entry option) \<Rightarrow> nat \<Rightarrow> py_error + int list \<times> real" where
  "face_of_link K g d face =
     ebind (np_get (nodes_at_link g) (int face)) (\<lambda>row.
     ebind (py_min row) (\<lambda>ln1.
     ebind (py_max row) (\<lambda>ln2.
     (case d (ln1, ln2) of
        None \<Rightarrow> Inl KeyError
      | Some (One p) \<Rightarrow> Inl TypeError
      | Some (Two cnr0 cnr1) \<Rightarrow>
          ebind (np_get (coords_of_corner g) cnr0) (\<lambda>c0.
          ebind (np_get (coords_of_corner g) cnr1) (\<lambda>c1.
          Inr ([cnr0, cnr1], radius g * arc_length K c0 c1 (radius g))))))))"

definition setup_faces :: "kernel \<Rightarrow> graph \<Rightarrow> py_error + graph" where
  "setup_faces K g =
     ebind (pair_loop (nodes_at_patch g) (map int [0..<number_of_patches g]) Map.empty) (\<lambda>d.
     ebind (emap (face_of_link K g d) [0..<number_of_links g]) (\<lambda>fs.
     Inr (g\<lparr>number_of_faces := number_of_links g,
            corners_at_face := map fst fs,
            length_of_face := map snd fs\<rparr>)))"

subsection \<open>setup\_cells\<close>

definition area_of_cell_at :: "kernel \<Rightarrow> graph \<Rightarrow> nat \<Rightarrow> py_error + real" where
  "area_of_cell_at K g cell =
     ebind (np_get (coords_of_node g) (int cell)) (\<lambda>p0.
     ebind (np_get (corners_at_node g) (int cell)) (\<lambda>row.
     ebind (np_get row 0) (\<lambda>i1.
     ebind (np_get (coords_of_corner g) i1) (\<lambda>p1.
     ebind (np_get row 1) (\<lambda>i2.
     ebind (np_get (coords_of_corner g) i2) (\<lambda>p2.
     ebind (py_min row) (\<lambda>m.
     (let area_of_tri = area_of_sphertri K p0 p1 p2 (radius g);
          ntri = 5 + (if - 1 < m then 1 else 0)
      in Inr (real_of_int ntri * area_of_tri)))))))))"

definition setup_cells :: "kernel \<Rightarrow> graph \<Rightarrow> py_error + graph" where
  "setup_cells K g =
     ebind (emap (area_of_cell_at K g) [0..<number_of_nodes g]) (\<lambda>areas.
     Inr (g\<lparr>number_of_cells := number_of_nodes g, area_of_cell := areas\<rparr>))"

subsection \<open>The constructor\<close>

text \<open>
  \<open>__init__\<close> obtains the vertex list and the triangle list from
  \<open>RefinableIcosahedron\<close> (not part of the sources at hand) and runs the builders on
  them; the two lists are parameters here.
\<close>

definition construct :: "kernel \<Rightarrow> real \<Rightarrow> vec3 list \<Rightarrow> (int \<times> int \<times> int) list \<Rightarrow> py_error + graph" where
  "construct K r ico_vertices ico_faces =
     ebind (setup_links K ico_faces (setup_nodes ico_vertices (new_graph r))) (\<lambda>g1.
     ebind (setup_patches_and_corners K ico_faces g1) (\<lambda>g2.
     ebind (setup_faces K g2) (\<lambda>g3.
     setup_cells K g3)))"

section \<open>Reference descriptions of the tables\<close>

text \<open>
  The definitions of this section are not part of the program: they describe, in the
  words of the specification, what the tables are expected to hold, and the theorems
  compare the program with them.
\<close>

text \<open>
  The link ends met at node \<open>r\<close>, in link order: link \<open>i\<close> contributes \<open>(i, -1)\<close> when
  its tail is \<open>r\<close> and \<open>(i, 1)\<close> when its head is \<open>r\<close> (node indices are resolved the way
  numpy resolves them).
\<close>

fun ends_at :: "nat \<Rightarrow> nat \<Rightarrow> int \<Rightarrow> (int \<times> int) list \<Rightarrow> (int \<times> int) list" where
  "ends_at n r i [] = []"
| "ends_at n r i (link # ls) =
     (if np_index n (fst link) = Inr r then [(i, - 1)] else []) @
     (if np_index n (snd link) = Inr r then [(i, 1)] else []) @
     ends_at n r (i + 1) ls"

definition tables_ok :: "nat \<Rightarrow> (nat \<Rightarrow> (int \<times> int) list) \<Rightarrow> link_tables \<Rightarrow> bool" where
  "tables_ok n E t \<longleftrightarrow>
     length (lt_links_at_node t) = n \<and> length (lt_link_dirs_at_node t) = n \<and>
     length (lt_link_at_node_index t) = n \<and>
     (\<forall>r<n. length (E r) \<le> 6 \<and>
        lt_links_at_node t ! r = map fst (E r) @ replicate (6 - length (E r)) (- 1) \<and>
        lt_link_dirs_at_node t ! r = map snd (E r) @ replicate (6 - length (E r)) 0 \<and>
        lt_link_at_node_index t ! r = int (length (E r)))"

definition initial_link_tables :: "nat \<Rightarrow> nat \<Rightarrow> nat \<Rightarrow> link_tables" where
  "initial_link_tables n cap L =
     \<lparr>lt_nodes_at_link = replicate cap [0, 0],
      lt_links_at_node = replicate n (replicate 6 (- 1)),
      lt_link_dirs_at_node = replicate n (replicate 6 0),
      lt_link_at_node_index = replicate n 0,
      lt_length_of_link = replicate L 0\<rparr>"

definition rows_ok :: "nat \<Rightarrow> kernel \<Rightarrow> real \<Rightarrow> vec3 list \<Rightarrow> (int \<times> int) list \<Rightarrow> link_tables \<Rightarrow> bool" where
  "rows_ok cap K r cn prev t \<longleftrightarrow>
     lt_nodes_at_link t = map (\<lambda>l. [fst l, snd l]) prev @ replicate (cap - length prev) [0, 0] \<and>
     length prev \<le> cap \<and>
     length prev \<le> length (lt_length_of_link t) \<and>
     (\<forall>j<length prev. \<exists>p q. np_get cn (fst (prev ! j)) = Inr p \<and> np_get cn (snd (prev ! j)) = Inr q \<and>
        lt_length_of_link t ! j = r * arc_length K p q r)"

text \<open>The directed triangle edges in the order in which \<open>setup_links\<close> visits them.\<close>

definition edges_of :: "(int \<times> int \<times> int) list \<Rightarrow> (int \<times> int) list" where
  "edges_of fs = concat (map (\<lambda>(a, b, c). [(a, b), (b, c), (c, a)]) fs)"

definition edge_key :: "int \<times> int \<Rightarrow> int" where
  "edge_key e = link_key (fst e) (snd e)"

definition upair :: "int \<times> int \<Rightarrow> int set" where
  "upair e = {fst e, snd e}"

definition dict_ok :: "(int \<times> int \<times> int) list \<Rightarrow> bool" where
  "dict_ok ls \<longleftrightarrow> distinct (map fst ls) \<and> (\<forall>x\<in>set ls. fst x = edge_key (snd x))"

text \<open>
  The links of a graph as (tail, head) pairs, the degree of a node (the number of link
  ends at it) and the link ends at a node.
\<close>

definition link_ends :: "graph \<Rightarrow> (int \<times> int) list" where
  "link_ends g = map (\<lambda>row. (row ! 0, row ! 1)) (take (number_of_links g) (nodes_at_link g))"

definition node_degree :: "graph \<Rightarrow> nat \<Rightarrow> nat" where
  "node_degree g r =
     length (filter (\<lambda>l. np_index (number_of_nodes g) (fst l) = Inr r) (link_ends g)) +
     length (filter (\<lambda>l. np_index (number_of_nodes g) (snd l) = Inr r) (link_ends g))"

definition incident_ends :: "graph \<Rightarrow> nat \<Rightarrow> (int \<times> int) list" where
  "incident_ends g r = ends_at (number_of_nodes g) r 0 (link_ends g)"

section \<open>Sample inputs\<close>

text \<open>
  A kernel that uses rational arithmetic only, for concrete evaluations; the theorems
  below hold for every kernel. Its \<open>argsort\<close> is an insertion sort, one of the functions
  that meet the library's description.
\<close>

definition sample_kernel :: kernel where
  "sample_kernel =
     \<lparr>arc_length = (\<lambda>p q r. case p of (a, b, c) \<Rightarrow> case q of (d, e, f) \<Rightarrow>
          ((a - d) * (a - d) + (b - e) * (b - e) + (c - f) * (c - f)) / (r * r)),
      area_of_sphertri = (\<lambda>p0 p1 p2 r. r * r / 2),
      cartesian_to_spherical = (\<lambda>x y z. (x * x + y * y + z * z, 0, 0)),
      rotate_zy = (\<lambda>x y z phi theta. (x, y, z)),
      argsort = (\<lambda>xs. sort_key (\<lambda>i. xs ! i) [0..<length xs])\<rparr>"

text \<open>
  The triangle list of the base icosahedron (densification level 0): patch 0 is
  \<open>(0, 11, 5)\<close> and link 0 joins nodes 0 and 11, as in the docstrings. The points
  have the layout of the icosahedron's vertices with the golden ratio replaced by 8/5.
\<close>

definition icosahedron_faces :: "(int \<times> int \<times> int) list" where
  "icosahedron_faces =
     [(0, 11, 5), (0, 5, 1), (0, 1, 7), (0, 7, 10), (0, 10, 11),
      (1, 5, 9), (5, 11, 4), (11, 10, 2), (10, 7, 6), (7, 1, 8),
      (3, 9, 4), (3, 4, 2), (3, 2, 6), (3, 6, 8), (3, 8, 9),
      (4, 9, 5), (2, 4, 11), (6, 2, 10), (8, 6, 7), (9, 8, 1)]"

definition icosahedron_points :: "vec3 list" where
  "icosahedron_points =
     [(- 1, 8 / 5, 0), (1, 8 / 5, 0), (- 1, - 8 / 5, 0), (1, - 8 / 5, 0),
      (0, - 1, 8 / 5), (0, 1, 8 / 5), (0, - 1, - 8 / 5), (0, 1, - 8 / 5),
      (8 / 5, 0, - 1), (8 / 5, 0, 1), (- 8 / 5, 0, - 1), (- 8 / 5, 0, 1)]"

definition icosahedron_nodes :: graph where
  "icosahedron_nodes = setup_nodes icosahedron_points (new_graph 1)"

text \<open>Every node index of the triangle list fits the 32-bit field of the link key.\<close>

definition index_bounded :: "(int \<times> int \<times> int) list \<Rightarrow> bool" where
  "index_bounded fs \<longleftrightarrow>
     (\<forall>f\<in>set fs. case f of (a, b, c) \<Rightarrow>
        0 \<le> a \<and> a < 2 ^ 32 \<and> 0 \<le> b \<and> b < 2 ^ 32 \<and> 0 \<le> c \<and> c < 2 ^ 32)"

text \<open>Three points for a mesh that is a single triangle.\<close>

definition triangle_points :: "vec3 list" where
  "triangle_points = [(1, 0, 0), (0, 1, 0), (0, 0, 1)]"

text \<open>
  A closed mesh of two triangles glued along their three edges, on three points of the
  unit sphere's equator.
\<close>

definition pillow_points :: "vec3 list" where
  "pillow_points = [(1, 0, 0), (0, 1, 0), (- 1, 0, 0)]"

definition pillow_faces :: "(int \<times> int \<times> int) list" where
  "pillow_faces = [(0, 1, 2), (0, 2, 1)]"

text \<open>The unit vector of a vector, and a vector scaled by a number.\<close>

definition normalize :: "vec3 \<Rightarrow> vec3" where
  "normalize v = (case v of (x, y, z) \<Rightarrow> (x / veclen v, y / veclen v, z / veclen v))"

definition scale :: "real \<Rightarrow> vec3 \<Rightarrow> vec3" where
  "scale r v = (case v of (x, y, z) \<Rightarrow> (r * x, r * y, r * z))"

text \<open>The two-triangle mesh with its nodes and patches, before the corners are placed.\<close>

definition pillow_patches :: graph where
  "pillow_patches =
     (setup_nodes pillow_points (new_graph 1))\<lparr>nodes_at_patch := [[0, 1, 2], [0, 2, 1]]\<rparr>"

text \<open>The two-triangle mesh with its corner tables, as the cell-area builder receives it.\<close>

definition pillow_cornered :: graph where
  "pillow_cornered =
     (setup_nodes pillow_points (new_graph 1))
       \<lparr>corners_at_node := [[0, 1, - 1, - 1, - 1, - 1], [0, 1, - 1, - 1, - 1, - 1],
                            [0, 1, - 1, - 1, - 1, - 1]],
        coords_of_corner := [(0, 0, 1), (0, 0, - 1)]\<rparr>"

text \<open>
  The dictionary key under which \<open>setup_faces\<close> registers edge \<open>j\<close> of patch \<open>i\<close>, the
  sequence of registrations, the patches registered under a key, and the dictionary value
  that a list of registered patches leads to.
\<close>

definition edge_key_at :: "int list list \<Rightarrow> int \<Rightarrow> int \<Rightarrow> int \<times> int" where
  "edge_key_at nap i j =
     (case np_get2 nap i (j - 1) of
        Inl e \<Rightarrow> (0, 0)
      | Inr n1 \<Rightarrow> (case np_get2 nap i j of Inl e \<Rightarrow> (0, 0) | Inr n2 \<Rightarrow> (min n1 n2, max n1 n2)))"

definition edge_visits :: "int list list \<Rightarrow> int list \<Rightarrow> ((int \<times> int) \<times> int) list" where
  "edge_visits nap ps =
     concat (map (\<lambda>i. [(edge_key_at nap i 0, i), (edge_key_at nap i 1, i), (edge_key_at nap i 2, i)]) ps)"

definition patches_on :: "((int \<times> int) \<times> int) list \<Rightarrow> int \<times> int \<Rightarrow> int list" where
  "patches_on V k = map snd (filter (\<lambda>v. fst v = k) V)"

fun entry_of :: "int list \<Rightarrow> patch_entry option" where
  "entry_of [] = None"
| "entry_of [a] = Some (One a)"
| "entry_of (a # b # bs) = Some (Two (min b a) (max b a))"

definition dict_of :: "((int \<times> int) \<times> int) list \<Rightarrow> (int \<times> int \<Rightarrow> patch_entry option) \<Rightarrow> bool" where
  "dict_of V d \<longleftrightarrow> (\<forall>k. length (patches_on V k) \<le> 2 \<and> d k = entry_of (patches_on V k))"

definition adjacent_patches :: "graph \<Rightarrow> int \<times> int \<Rightarrow> int list" where
  "adjacent_patches g k =
     patches_on (edge_visits (nodes_at_patch g) (map int [0..<number_of_patches g])) k"

text \<open>The two-triangle mesh after \<open>setup_links\<close> and after \<open>setup_patches_and_corners\<close>.\<close>

definition pillow_linked :: graph where
  "pillow_linked =
     (setup_nodes pillow_points (new_graph 1))
       \<lparr>links := [(1, 0, 1), (4294967298, 1, 2), (2, 2, 0)],
        nodes_at_link := [[0, 1], [1, 2], [2, 0]],
        links_at_node := [[0, 2, - 1, - 1, - 1, - 1], [0, 1, - 1, - 1, - 1, - 1],
                          [1, 2, - 1, - 1, - 1, - 1]],
        link_dirs_at_node := [[- 1, 1, 0, 0, 0, 0], [1, - 1, 0, 0, 0, 0], [1, - 1, 0, 0, 0, 0]],
        number_of_links := 3,
        length_of_link := [2, 2, 4]\<rparr>"

definition pillow_meshed :: graph where
  "pillow_meshed =
     pillow_linked
       \<lparr>number_of_corners := 2, number_of_patches := 2,
        nodes_at_patch := [[0, 1, 2], [0, 2, 1]],
        corners_at_node := [[0, 1, - 1, - 1, - 1, - 1], [0, 1, - 1, - 1, - 1, - 1],
                            [0, 1, - 1, - 1, - 1, - 1]],
        coords_of_corner := [(0, 0, 1), (0, 0, - 1)],
        memo_r_of_node := Some [1, 1, 1],
        memo_phi_of_node := Some [0, 0, 0],
        memo_theta_of_node := Some [0, 0, 0]\<rparr>"

definition patch_keys :: "int list list \<Rightarrow> nat \<Rightarrow> (int \<times> int) list" where
  "patch_keys nap p = [edge_key_at nap (int p) 0, edge_key_at nap (int p) 1, edge_key_at nap (int p) 2]"

text \<open>
  The second and third components of the spherical coordinates of the nodes, as
  \<open>_setup_node_spherical_coords\<close> stores them; the memo is either unset or holds them.
\<close>

definition sph_phis :: "kernel \<Rightarrow> graph \<Rightarrow> real list" where
  "sph_phis K g = map (\<lambda>(x, y, z). fst (snd (cartesian_to_spherical K x y z))) (coords_of_node g)"

definition sph_thetas :: "kernel \<Rightarrow> graph \<Rightarrow> real list" where
  "sph_thetas K g = map (\<lambda>(x, y, z). snd (snd (cartesian_to_spherical K x y z))) (coords_of_node g)"


text \<open>
  What the library documents for \<open>np.argsort\<close>: the result lists every index of the
  array once, and the array read at these indices is in ascending order.
\<close>

definition argsort_ok :: "kernel \<Rightarrow> bool" where
  "argsort_ok K \<longleftrightarrow>
     (\<forall>xs. distinct (argsort K xs) \<and> set (argsort K xs) = {..<length xs} \<and>
           sorted (map (\<lambda>i. xs ! i) (argsort K xs)))"

text \<open>
  The angle of corner \<open>c\<close> in the local frame of a node, as the description of the sort
  words it: the position of the corner is rotated by the negative of the node's azimuth
  and then by the negative of its polar angle (the second and the third spherical
  coordinate of the node), the angle of the rotated position in the plane is
  \<open>atan2 (y, x)\<close>, and a negative angle is raised by \<open>2 pi\<close>.
\<close>

definition local_angle :: "kernel \<Rightarrow> graph \<Rightarrow> nat \<Rightarrow> int \<Rightarrow> real" where
  "local_angle K g node c =
     (case np_get (coords_of_corner g) c of
        Inl e \<Rightarrow> 0
      | Inr (cx, cy, cz) \<Rightarrow>
          (case rotate_zy K cx cy cz (- (sph_phis K g ! node)) (- (sph_thetas K g ! node)) of
             (rx, ry, rz) \<Rightarrow>
               if arctan2 ry rx < 0 then arctan2 ry rx + 2 * pi else arctan2 ry rx))"

text \<open>The number of entries of a row that are not the sentinel, and the row after the sort.\<close>

definition valid_count :: "int list \<Rightarrow> nat" where
  "valid_count row = length (filter (\<lambda>c. c + 1 \<noteq> 0) row)"

definition sorted_row :: "kernel \<Rightarrow> graph \<Rightarrow> nat \<Rightarrow> int list" where
  "sorted_row K g node =
     (let row = corners_at_node g ! node; nc = valid_count row
      in map (\<lambda>i. row ! i) (argsort K (map (local_angle K g node) (take nc row))) @ drop nc row)"


text \<open>
  A closed mesh of four triangles on four points of the unit sphere's equator: every edge
  lies on two triangles. The triangles are in one plane; the first two face up and the
  last two face down, so the first two have the same corner, and so have the last two.
\<close>

definition flat_points :: "vec3 list" where
  "flat_points = [(1, 0, 0), (0, 1, 0), (- 1, 0, 0), (0, - 1, 0)]"

definition flat_faces :: "(int \<times> int \<times> int) list" where
  "flat_faces = [(0, 1, 2), (0, 2, 3), (1, 0, 3), (1, 3, 2)]"

text \<open>
  The flat mesh after \<open>setup_links\<close>, then as \<open>setup_patches_and_corners\<close> hands it to
  \<open>sort_corners_ccw\<close>, and after the sort under the sample kernel.
\<close>

definition flat_linked :: graph where
  "flat_linked =
     (setup_nodes flat_points (new_graph 1))
       \<lparr>links := [(1, 0, 1), (4294967298, 1, 2), (2, 2, 0), (8589934595, 2, 3),
                  (3, 3, 0), (4294967299, 3, 1)],
        nodes_at_link := [[0, 1], [1, 2], [2, 0], [2, 3], [3, 0], [3, 1]],
        links_at_node := [[0, 2, 4, - 1, - 1, - 1], [0, 1, 5, - 1, - 1, - 1],
                          [1, 2, 3, - 1, - 1, - 1], [3, 4, 5, - 1, - 1, - 1]],
        link_dirs_at_node := [[- 1, 1, 1, 0, 0, 0], [1, - 1, 1, 0, 0, 0],
                              [1, - 1, - 1, 0, 0, 0], [1, - 1, - 1, 0, 0, 0]],
        number_of_links := 6,
        length_of_link := [2, 2, 4, 2, 2, 4]\<rparr>"

definition flat_cornered :: graph where
  "flat_cornered =
     flat_linked
       \<lparr>number_of_corners := 4, number_of_patches := 4,
        nodes_at_patch := [[0, 1, 2], [0, 2, 3], [1, 0, 3], [1, 3, 2]],
        corners_at_node := [[0, 1, 2, - 1, - 1, - 1], [0, 2, 3, - 1, - 1, - 1],
                            [0, 1, 3, - 1, - 1, - 1], [1, 2, 3, - 1, - 1, - 1]],
        coords_of_corner := [(0, 0, 1), (0, 0, 1), (0, 0, - 1), (0, 0, - 1)]\<rparr>"

definition flat_meshed :: graph where
  "flat_meshed =
     flat_cornered
       \<lparr>memo_r_of_node := Some [1, 1, 1, 1],
        memo_phi_of_node := Some [0, 0, 0, 0],
        memo_theta_of_node := Some [0, 0, 0, 0]\<rparr>"

text \<open>
  A second function that meets the description of \<open>np.argsort\<close>: among equal entries
  the later index comes first.
\<close>

definition descending_ties :: "real list \<Rightarrow> nat list" where
  "descending_ties xs = rev (sort_key (\<lambda>i. - (xs ! i)) [0..<length xs])"

text \<open>
  Triangle lists for three vertices: one with the index 3, one with the index -1, and one
  of two degenerate triangles.
\<close>

definition out_of_range_faces :: "(int \<times> int \<times> int) list" where
  "out_of_range_faces = [(0, 1, 3), (0, 3, 1)]"

definition negative_index_faces :: "(int \<times> int \<times> int) list" where
  "negative_index_faces = [(0, 1, - 1), (0, - 1, 1)]"

definition degenerate_faces :: "(int \<times> int \<times> int) list" where
  "degenerate_faces = [(0, 0, 1), (0, 0, 2)]"

section \<open>Array access and sequencing\<close>

lemma ebind_Inr: "ebind m f = Inr y \<longleftrightarrow> (\<exists>x. m = Inr x \<and> f x = Inr y)"
  by (cases m) (simp_all add: ebind_def)

lemma ebind_Inl: "ebind m f = Inl e \<longleftrightarrow> m = Inl e \<or> (\<exists>x. m = Inr x \<and> f x = Inl e)"
  by (cases m) (simp_all add: ebind_def)

lemma np_index_less: "np_index n i = Inr j \<Longrightarrow> j < n"
  by (auto simp: np_index_def split: if_splits)

lemma np_index_int: "np_index n (int k) = Inr j \<longleftrightarrow> k < n \<and> j = k"
  by (auto simp: np_index_def)

lemma np_index_error: "np_index n i = Inl e \<Longrightarrow> e = IndexError"
  by (auto simp: np_index_def split: if_splits)

lemma np_get_Inr: "np_get xs i = Inr x \<longleftrightarrow> (\<exists>j. np_index (length xs) i = Inr j \<and> x = xs ! j)"
  by (auto simp: np_get_def ebind_Inr)

lemma np_set_Inr: "np_set xs i v = Inr ys \<longleftrightarrow> (\<exists>j. np_index (length xs) i = Inr j \<and> ys = xs[j := v])"
  by (auto simp: np_set_def ebind_Inr)

lemma np_set2_Inr:
  "np_set2 xss i j v = Inr yss \<longleftrightarrow>
     (\<exists>r c. np_index (length xss) i = Inr r \<and> np_index (length (xss ! r)) j = Inr c \<and>
            yss = xss[r := (xss ! r)[c := v]])"
  by (auto simp: np_set2_def ebind_Inr np_set_Inr)

lemma pad_update:
  "length xs < m \<Longrightarrow> (xs @ replicate (m - length xs) a)[length xs := v] = (xs @ [v]) @ replicate (m - length (xs @ [v])) a"
proof -
  assume "length xs < m"
  then obtain d where d: "m - length xs = Suc d" by (cases "m - length xs") auto
  then have "m - length (xs @ [v]) = d" by simp
  with d show ?thesis by (simp add: list_update_append)
qed

section \<open>The link tables built by setup\_links\<close>

lemma enter_link_end_ok:
  assumes ok: "tables_ok n E t" and run: "enter_link_end i col node dir t = Inr t'"
  shows "\<exists>r. np_index n node = Inr r \<and> tables_ok n (E(r := E r @ [(i, dir)])) t'"
proof -
  from run obtain nal k lan ldn idx where
    k: "np_get (lt_link_at_node_index t) node = Inr k"
    and lan: "np_set2 (lt_links_at_node t) node k i = Inr lan"
    and ldn: "np_set2 (lt_link_dirs_at_node t) node k dir = Inr ldn"
    and idx: "np_set (lt_link_at_node_index t) node (k + 1) = Inr idx"
    and t': "t' = t\<lparr>lt_nodes_at_link := nal, lt_links_at_node := lan,
            lt_link_dirs_at_node := ldn, lt_link_at_node_index := idx\<rparr>"
    unfolding enter_link_end_def ebind_Inr by auto
  from ok have len: "length (lt_links_at_node t) = n" "length (lt_link_dirs_at_node t) = n"
     "length (lt_link_at_node_index t) = n" by (simp_all add: tables_ok_def)
  from k len obtain r where r: "np_index n node = Inr r" and kr: "k = lt_link_at_node_index t ! r"
    by (auto simp: np_get_Inr)
  from r have rn: "r < n" by (rule np_index_less)
  from ok rn have row: "length (E r) \<le> 6"
     "lt_links_at_node t ! r = map fst (E r) @ replicate (6 - length (E r)) (- 1)"
     "lt_link_dirs_at_node t ! r = map snd (E r) @ replicate (6 - length (E r)) 0"
     "lt_link_at_node_index t ! r = int (length (E r))"
    by (simp_all add: tables_ok_def)
  from kr row have kE: "k = int (length (E r))" by simp
  from lan len r obtain c where c: "np_index (length (lt_links_at_node t ! r)) k = Inr c"
    and lan': "lan = (lt_links_at_node t)[r := (lt_links_at_node t ! r)[c := i]]"
    by (auto simp: np_set2_Inr)
  from c row kE have c6: "length (E r) < 6" and cE: "c = length (E r)"
    by (auto simp: np_index_int)
  from ldn len r row kE have ldn': "ldn = (lt_link_dirs_at_node t)[r := (lt_link_dirs_at_node t ! r)[length (E r) := dir]]"
    by (auto simp: np_set2_Inr np_index_int)
  from idx len r kE have idx': "idx = (lt_link_at_node_index t)[r := int (length (E r)) + 1]"
    by (auto simp: np_set_Inr)
  have r1: "(map fst (E r) @ replicate (6 - length (E r)) (- 1))[length (E r) := i]
        = map fst (E r @ [(i, dir)]) @ replicate (6 - length (E r @ [(i, dir)])) (- 1)"
    using pad_update[of "map fst (E r)" 6 "- 1" i] c6 by simp
  have r2: "(map snd (E r) @ replicate (6 - length (E r)) 0)[length (E r) := dir]
        = map snd (E r @ [(i, dir)]) @ replicate (6 - length (E r @ [(i, dir)])) 0"
    using pad_update[of "map snd (E r)" 6 0 dir] c6 by simp
  have "tables_ok n (E(r := E r @ [(i, dir)])) t'"
    unfolding tables_ok_def
  proof (intro conjI allI impI)
    fix x assume xn: "x < n"
    show "length ((E(r := E r @ [(i, dir)])) x) \<le> 6"
      using ok xn c6 by (auto simp: tables_ok_def)
    show "lt_links_at_node t' ! x = map fst ((E(r := E r @ [(i, dir)])) x) @
            replicate (6 - length ((E(r := E r @ [(i, dir)])) x)) (- 1)"
      using ok xn rn r1 len by (cases "x = r") (auto simp: t' lan' cE row tables_ok_def)
    show "lt_link_dirs_at_node t' ! x = map snd ((E(r := E r @ [(i, dir)])) x) @
            replicate (6 - length ((E(r := E r @ [(i, dir)])) x)) 0"
      using ok xn rn r2 len by (cases "x = r") (auto simp: t' ldn' row tables_ok_def)
    show "lt_link_at_node_index t' ! x = int (length ((E(r := E r @ [(i, dir)])) x))"
      using ok xn rn len by (cases "x = r") (auto simp: t' idx' tables_ok_def)
  qed (simp_all add: t' lan' ldn' idx' len)
  with r show ?thesis by blast
qed

lemma link_body_ok:
  assumes ok: "tables_ok n E t" and run: "link_body K r cn i link t = Inr t'"
  shows "tables_ok n (\<lambda>x. E x @ ends_at n x i [link]) t'"
proof -
  from run obtain t1 t2 lol where
    1: "enter_link_end i 0 (fst link) (- 1) t = Inr t1"
    and 2: "enter_link_end i 1 (snd link) 1 t1 = Inr t2"
    and t': "t' = t2\<lparr>lt_length_of_link := lol\<rparr>"
    unfolding link_body_def Let_def ebind_Inr by auto
  from enter_link_end_ok[OF ok 1] obtain a where
    a: "np_index n (fst link) = Inr a" and oka: "tables_ok n (E(a := E a @ [(i, - 1)])) t1" by blast
  from enter_link_end_ok[OF oka 2] obtain b where
    b: "np_index n (snd link) = Inr b"
    and okb: "tables_ok n ((E(a := E a @ [(i, - 1)]))(b := (E(a := E a @ [(i, - 1)])) b @ [(i, 1)])) t2" by blast
  have "(\<lambda>x. E x @ ends_at n x i [link]) = (E(a := E a @ [(i, - 1)]))(b := (E(a := E a @ [(i, - 1)])) b @ [(i, 1)])"
    using a b by (auto simp: fun_eq_iff)
  with okb show ?thesis by (simp add: t' tables_ok_def)
qed

lemma link_loop_ok:
  "tables_ok n E t \<Longrightarrow> link_loop K r cn ls i t = Inr t' \<Longrightarrow>
   tables_ok n (\<lambda>x. E x @ ends_at n x i ls) t'"
proof (induction ls arbitrary: E i t)
  case Nil
  then show ?case by simp
next
  case (Cons link ls)
  from Cons.prems(2) obtain t1 where
    1: "link_body K r cn i link t = Inr t1" and 2: "link_loop K r cn ls (i + 1) t1 = Inr t'"
    by (auto simp: ebind_Inr)
  from Cons.IH[OF link_body_ok[OF Cons.prems(1) 1] 2]
  show ?case by (simp add: append_assoc)
qed

lemma link_loop_resolves:
  "tables_ok n E t \<Longrightarrow> link_loop K r cn ls i t = Inr t' \<Longrightarrow> link \<in> set ls \<Longrightarrow>
   (\<exists>a. np_index n (fst link) = Inr a) \<and> (\<exists>b. np_index n (snd link) = Inr b)"
proof (induction ls arbitrary: E i t)
  case Nil
  then show ?case by simp
next
  case (Cons l ls)
  from Cons.prems(2) obtain t1 where
    1: "link_body K r cn i l t = Inr t1" and 2: "link_loop K r cn ls (i + 1) t1 = Inr t'"
    by (auto simp: ebind_Inr)
  show ?case
  proof (cases "link = l")
    case True
    from 1 obtain u1 u2 where
      a: "enter_link_end i 0 (fst l) (- 1) t = Inr u1"
      and b: "enter_link_end i 1 (snd l) 1 u1 = Inr u2"
      unfolding link_body_def Let_def ebind_Inr by auto
    from enter_link_end_ok[OF Cons.prems(1) a] obtain x where
      x: "np_index n (fst l) = Inr x" and okx: "tables_ok n (E(x := E x @ [(i, - 1)])) u1" by blast
    from enter_link_end_ok[OF okx b] obtain y where "np_index n (snd l) = Inr y" by blast
    with x True show ?thesis by blast
  next
    case False
    with Cons.prems(3) have "link \<in> set ls" by simp
    from Cons.IH[OF link_body_ok[OF Cons.prems(1) 1] 2 this] show ?thesis .
  qed
qed

lemma ends_at_entries:
  "(j, d) \<in> set (ends_at n r i ls) \<Longrightarrow> i \<le> j \<and> j < i + int (length ls) \<and> (d = - 1 \<or> d = 1)"
  by (induction ls arbitrary: i) (fastforce split: if_splits)+

lemma length_ends_at:
  "length (ends_at n r i ls) =
     length (filter (\<lambda>l. np_index n (fst l) = Inr r) ls) +
     length (filter (\<lambda>l. np_index n (snd l) = Inr r) ls)"
  by (induction ls arbitrary: i) auto

lemma sum_indicator:
  "np_index n x = Inr a \<Longrightarrow> (\<Sum>r<n. if np_index n x = Inr r then 1 else 0) = (1::nat)"
proof -
  assume a: "np_index n x = Inr a"
  then have "a < n" by (rule np_index_less)
  have "(\<Sum>r<n. if np_index n x = Inr r then 1 else 0) = (\<Sum>r<n. if r = a then 1 else (0::nat))"
    using a by (intro sum.cong) auto
  also have "\<dots> = 1" using \<open>a < n\<close> by simp
  finally show ?thesis .
qed

lemma sum_filter_ends:
  "\<forall>l\<in>set ls. \<exists>a. np_index n (f l) = Inr a \<Longrightarrow>
   (\<Sum>r<n. length (filter (\<lambda>l. np_index n (f l) = Inr r) ls)) = length ls"
proof (induction ls)
  case Nil
  then show ?case by simp
next
  case (Cons l ls)
  from Cons.prems obtain a where a: "np_index n (f l) = Inr a" by auto
  have "(\<Sum>r<n. length (filter (\<lambda>l. np_index n (f l) = Inr r) (l # ls)))
      = (\<Sum>r<n. (if np_index n (f l) = Inr r then 1 else 0) + length (filter (\<lambda>l. np_index n (f l) = Inr r) ls))"
    by (intro sum.cong) auto
  also have "\<dots> = 1 + length ls"
    using Cons sum_indicator[OF a] by (simp add: sum.distrib)
  finally show ?case by simp
qed

lemma setup_links_Inr:
  assumes "setup_links K ico_faces g = Inr g'"
  obtains t where
    "link_loop K (radius g) (coords_of_node g) (map snd (add_faces ico_faces [])) 0
       (initial_link_tables (number_of_nodes g) ((3 * length ico_faces) div 2) (length (add_faces ico_faces []))) = Inr t"
    "g' = g\<lparr>links := add_faces ico_faces [],
            nodes_at_link := lt_nodes_at_link t,
            links_at_node := lt_links_at_node t,
            link_dirs_at_node := lt_link_dirs_at_node t,
            number_of_links := length (add_faces ico_faces []),
            length_of_link := lt_length_of_link t\<rparr>"
  using assms unfolding setup_links_def Let_def ebind_Inr initial_link_tables_def by auto

lemma initial_tables_ok: "tables_ok n (\<lambda>r. []) (initial_link_tables n cap L)"
  by (simp add: tables_ok_def initial_link_tables_def)

lemma setup_links_rows:
  assumes run: "setup_links K ico_faces g = Inr g'" and r: "r < number_of_nodes g"
  defines "E \<equiv> ends_at (number_of_nodes g) r 0 (map snd (links g'))"
  shows "length E \<le> 6"
    and "links_at_node g' ! r = map fst E @ replicate (6 - length E) (- 1)"
    and "link_dirs_at_node g' ! r = map snd E @ replicate (6 - length E) 0"
proof -
  from run obtain t where
    loop: "link_loop K (radius g) (coords_of_node g) (map snd (add_faces ico_faces [])) 0
       (initial_link_tables (number_of_nodes g) ((3 * length ico_faces) div 2) (length (add_faces ico_faces []))) = Inr t"
    and g': "g' = g\<lparr>links := add_faces ico_faces [],
            nodes_at_link := lt_nodes_at_link t,
            links_at_node := lt_links_at_node t,
            link_dirs_at_node := lt_link_dirs_at_node t,
            number_of_links := length (add_faces ico_faces []),
            length_of_link := lt_length_of_link t\<rparr>"
    by (rule setup_links_Inr)
  from link_loop_ok[OF initial_tables_ok loop]
  have ok: "tables_ok (number_of_nodes g) (\<lambda>x. ends_at (number_of_nodes g) x 0 (map snd (add_faces ico_faces []))) t"
    by simp
  have E: "E = ends_at (number_of_nodes g) r 0 (map snd (add_faces ico_faces []))"
    by (simp add: E_def g')
  from ok r show "length E \<le> 6" by (simp add: tables_ok_def E)
  from ok r show "links_at_node g' ! r = map fst E @ replicate (6 - length E) (- 1)"
    by (simp add: tables_ok_def E g')
  from ok r show "link_dirs_at_node g' ! r = map snd E @ replicate (6 - length E) 0"
    by (simp add: tables_ok_def E g')
qed

lemma padded_slot:
  assumes E: "\<forall>e\<in>set E. 0 \<le> fst e \<and> (snd e = - 1 \<or> snd e = 1)" and s: "s < (6::nat)" and l: "length E \<le> 6"
  shows "(s < length E \<longrightarrow> 0 \<le> (map fst E @ replicate (6 - length E) (- 1 :: int)) ! s \<and>
            ((map snd E @ replicate (6 - length E) (0::int)) ! s = - 1 \<or>
             (map snd E @ replicate (6 - length E) 0) ! s = 1)) \<and>
         (\<not> s < length E \<longrightarrow> (map fst E @ replicate (6 - length E) (- 1)) ! s = - 1 \<and>
            (map snd E @ replicate (6 - length E) 0) ! s = 0)"
  using assms by (auto simp: nth_append)

lemma padded_counts:
  assumes E: "\<forall>e\<in>set E. 0 \<le> fst e \<and> (snd e = - 1 \<or> snd e = 1)"
  shows "length (filter (\<lambda>l. 0 \<le> l) (map fst E @ replicate m (- 1 :: int))) = length E"
    and "length (filter (\<lambda>d. d \<noteq> 0) (map snd E @ replicate m (0::int))) = length E"
    and "length (filter (\<lambda>d. d \<noteq> - 1) (map snd E @ replicate m (0::int))) = length (filter (\<lambda>e. snd e = 1) E) + m"
proof -
  have a: "filter (\<lambda>l. 0 \<le> l) (map fst E) = map fst E" using E by (auto simp: filter_id_conv)
  have b: "filter (\<lambda>d. d \<noteq> 0) (map snd E) = map snd E" using E by (auto simp: filter_id_conv)
  have c: "filter (\<lambda>d. d \<noteq> - 1) (map snd E) = map snd (filter (\<lambda>e. snd e = 1) E)"
    using E by (induction E) auto
  show "length (filter (\<lambda>l. 0 \<le> l) (map fst E @ replicate m (- 1 :: int))) = length E"
    using a by (simp del: filter_map)
  show "length (filter (\<lambda>d. d \<noteq> 0) (map snd E @ replicate m (0::int))) = length E"
    using b by (simp del: filter_map)
  show "length (filter (\<lambda>d. d \<noteq> - 1) (map snd E @ replicate m (0::int))) = length (filter (\<lambda>e. snd e = 1) E) + m"
    using c by (simp del: filter_map)
qed

lemma ends_at_ok: "\<forall>e\<in>set (ends_at n r 0 ls). 0 \<le> fst e \<and> (snd e = - 1 \<or> snd e = 1)"
  using ends_at_entries[of _ _ n r 0 ls] by fastforce

lemma heads_ends_at:
  "length (filter (\<lambda>e. snd e = 1) (ends_at n r i ls)) = length (filter (\<lambda>l. np_index n (snd l) = Inr r) ls)"
  by (induction ls arbitrary: i) auto

lemma enter_link_end_nal:
  assumes "enter_link_end i col node dir t = Inr t'"
  shows "lt_length_of_link t' = lt_length_of_link t \<and>
         np_set2 (lt_nodes_at_link t) i col node = Inr (lt_nodes_at_link t')"
  using assms unfolding enter_link_end_def ebind_Inr by auto

lemma link_body_rows:
  assumes ok: "rows_ok cap K r cn prev t"
    and run: "link_body K r cn (int (length prev)) link t = Inr t'"
  shows "rows_ok cap K r cn (prev @ [link]) t'"
proof -
  define m where "m = length prev"
  from run obtain t1 t2 p q lol where
    1: "enter_link_end (int m) 0 (fst link) (- 1) t = Inr t1"
    and 2: "enter_link_end (int m) 1 (snd link) 1 t1 = Inr t2"
    and p: "np_get cn (fst link) = Inr p" and q: "np_get cn (snd link) = Inr q"
    and lol: "np_set (lt_length_of_link t2) (int m) (r * arc_length K p q r) = Inr lol"
    and t': "t' = t2\<lparr>lt_length_of_link := lol\<rparr>"
    unfolding link_body_def Let_def ebind_Inr m_def by auto
  from ok have nal: "lt_nodes_at_link t = map (\<lambda>l. [fst l, snd l]) prev @ replicate (cap - m) [0, 0]"
    and dl: "\<forall>j<m. \<exists>p q. np_get cn (fst (prev ! j)) = Inr p \<and> np_get cn (snd (prev ! j)) = Inr q \<and>
        lt_length_of_link t ! j = r * arc_length K p q r"
    by (simp_all add: rows_ok_def m_def)
  from enter_link_end_nal[OF 1] have l1: "lt_length_of_link t1 = lt_length_of_link t"
    and n1: "np_set2 (lt_nodes_at_link t) (int m) 0 (fst link) = Inr (lt_nodes_at_link t1)" by simp_all
  from enter_link_end_nal[OF 2] have l2: "lt_length_of_link t2 = lt_length_of_link t1"
    and n2: "np_set2 (lt_nodes_at_link t1) (int m) 1 (snd link) = Inr (lt_nodes_at_link t2)" by simp_all
  from n1 have mcap: "m < length (lt_nodes_at_link t)"
    by (auto simp: np_set2_Inr np_index_int)
  with nal have mc: "m < cap" by (simp add: m_def)
  have rowm: "lt_nodes_at_link t ! m = [0, 0]"
    using nal mc by (simp add: nth_append m_def)
  have idx0: "np_index (Suc (Suc 0)) 0 = Inr 0" "np_index (Suc (Suc 0)) 1 = Inr (Suc 0)"
    by (simp_all add: np_index_def)
  from n1 mcap rowm have nal1: "lt_nodes_at_link t1 = (lt_nodes_at_link t)[m := [fst link, 0]]"
    by (auto simp: np_set2_Inr np_index_int idx0)
  from n2 mcap have nal2: "lt_nodes_at_link t2 = (lt_nodes_at_link t)[m := [fst link, snd link]]"
    by (auto simp: np_set2_Inr np_index_int nal1 idx0)
  have upd: "(map (\<lambda>l. [fst l, snd l]) prev @ replicate (cap - m) [0, 0])[m := [fst link, snd link]]
      = map (\<lambda>l. [fst l, snd l]) (prev @ [link]) @ replicate (cap - length (prev @ [link])) [0, 0]"
    using pad_update[of "map (\<lambda>l. [fst l, snd l]) prev" cap "[0, 0]" "[fst link, snd link]"] mc
    by (simp add: m_def)
  from lol l1 l2 have mL: "m < length (lt_length_of_link t)"
    and lol': "lol = (lt_length_of_link t)[m := r * arc_length K p q r]"
    by (auto simp: np_set_Inr np_index_int)
  show ?thesis
    unfolding rows_ok_def
  proof (intro conjI allI impI)
    show "lt_nodes_at_link t' = map (\<lambda>l. [fst l, snd l]) (prev @ [link]) @
            replicate (cap - length (prev @ [link])) [0, 0]"
      using upd by (simp add: t' nal2 nal)
    show "length (prev @ [link]) \<le> cap" using mc by (simp add: m_def)
    show "length (prev @ [link]) \<le> length (lt_length_of_link t')"
      using mL by (simp add: t' lol' m_def)
  next
    fix j assume j: "j < length (prev @ [link])"
    show "\<exists>p q. np_get cn (fst ((prev @ [link]) ! j)) = Inr p \<and>
                np_get cn (snd ((prev @ [link]) ! j)) = Inr q \<and>
                lt_length_of_link t' ! j = r * arc_length K p q r"
    proof (cases "j < m")
      case True
      with dl show ?thesis by (simp add: t' lol' nth_append m_def)
    next
      case False
      with j have "j = m" by (simp add: m_def)
      with p q mL show ?thesis by (simp add: t' lol' nth_append m_def)
    qed
  qed
qed

lemma link_loop_rows:
  "rows_ok cap K r cn prev t \<Longrightarrow> link_loop K r cn ls (int (length prev)) t = Inr t' \<Longrightarrow>
   rows_ok cap K r cn (prev @ ls) t'"
proof (induction ls arbitrary: prev t)
  case Nil
  then show ?case by simp
next
  case (Cons link ls)
  from Cons.prems(2) obtain t1 where
    1: "link_body K r cn (int (length prev)) link t = Inr t1"
    and 2: "link_loop K r cn ls (int (length prev) + 1) t1 = Inr t'"
    by (auto simp: ebind_Inr)
  from 2 have 3: "link_loop K r cn ls (int (length (prev @ [link]))) t1 = Inr t'"
    by (simp add: add.commute)
  from Cons.IH[OF link_body_rows[OF Cons.prems(1) 1] 3] show ?case by simp
qed

lemma initial_rows_ok: "rows_ok cap K r cn [] (initial_link_tables n cap L)"
  by (simp add: rows_ok_def initial_link_tables_def)

lemma ends_at_tail:
  "i < length ls \<Longrightarrow> np_index n (fst (ls ! i)) = Inr a \<Longrightarrow> (k + int i, - 1) \<in> set (ends_at n a k ls)"
proof (induction ls arbitrary: i k)
  case Nil
  then show ?case by simp
next
  case (Cons l ls)
  show ?case
  proof (cases i)
    case 0
    with Cons.prems show ?thesis by simp
  next
    case (Suc i')
    from Cons.prems Suc have "(k + 1 + int i', - 1) \<in> set (ends_at n a (k + 1) ls)"
      by (intro Cons.IH) simp_all
    moreover have "k + 1 + int i' = k + int (Suc i')" by simp
    ultimately show ?thesis using Suc by simp
  qed
qed

lemma ends_at_head:
  "i < length ls \<Longrightarrow> np_index n (snd (ls ! i)) = Inr b \<Longrightarrow> (k + int i, 1) \<in> set (ends_at n b k ls)"
proof (induction ls arbitrary: i k)
  case Nil
  then show ?case by simp
next
  case (Cons l ls)
  show ?case
  proof (cases i)
    case 0
    with Cons.prems show ?thesis by simp
  next
    case (Suc i')
    from Cons.prems Suc have "(k + 1 + int i', 1) \<in> set (ends_at n b (k + 1) ls)"
      by (intro Cons.IH) simp_all
    moreover have "k + 1 + int i' = k + int (Suc i')" by simp
    ultimately show ?thesis using Suc by simp
  qed
qed

lemma add_faces_fold:
  "add_faces fs ls = fold (\<lambda>e. add_link (fst e) (snd e)) (edges_of fs) ls"
  by (induction fs ls rule: add_faces.induct) (simp_all add: edges_of_def)

lemma add_link_ok: "dict_ok ls \<Longrightarrow> dict_ok (add_link p q ls)"
  by (auto simp: dict_ok_def add_link_def Let_def edge_key_def map_of_eq_None_iff)

lemma map_of_add_link:
  "map_of (add_link p q ls) k =
     (if map_of ls k = None \<and> k = link_key p q then Some (p, q) else map_of ls k)"
  by (auto simp: add_link_def Let_def map_of_append map_add_def split: option.splits)

lemma fold_add_link_ok:
  "dict_ok ls \<Longrightarrow> dict_ok (fold (\<lambda>e. add_link (fst e) (snd e)) es ls)"
  by (induction es arbitrary: ls) (simp_all add: add_link_ok)

lemma map_of_fold_add_link:
  "map_of (fold (\<lambda>e. add_link (fst e) (snd e)) es ls) k =
     (case map_of ls k of Some v \<Rightarrow> Some v | None \<Rightarrow> find (\<lambda>e. edge_key e = k) es)"
proof (induction es arbitrary: ls)
  case Nil
  then show ?case by (simp split: option.splits)
next
  case (Cons e es)
  show ?case
    by (auto simp: Cons.IH map_of_add_link edge_key_def split: option.splits)
qed

lemma links_first_seen:
  assumes "l \<in> set (map snd (add_faces fs []))"
  shows "find (\<lambda>e. edge_key e = edge_key l) (edges_of fs) = Some l"
proof -
  let ?d = "add_faces fs []"
  have ok: "dict_ok ?d" unfolding add_faces_fold by (rule fold_add_link_ok) (simp add: dict_ok_def)
  from assms obtain k where kl: "(k, l) \<in> set ?d" by auto
  with ok have k: "k = edge_key l" by (auto simp: dict_ok_def)
  from ok kl have "map_of ?d k = Some l" by (simp add: dict_ok_def)
  then show ?thesis unfolding add_faces_fold map_of_fold_add_link k by simp
qed

lemma links_keys:
  "edge_key ` set (map snd (add_faces fs [])) = edge_key ` set (edges_of fs)"
proof -
  let ?d = "add_faces fs []"
  have ok: "dict_ok ?d" unfolding add_faces_fold by (rule fold_add_link_ok) (simp add: dict_ok_def)
  have "k \<in> edge_key ` set (map snd ?d) \<longleftrightarrow> k \<in> edge_key ` set (edges_of fs)" for k
  proof
    assume "k \<in> edge_key ` set (map snd ?d)"
    then obtain l where l: "l \<in> set (map snd ?d)" and k: "k = edge_key l" by auto
    from links_first_seen[OF l] have "l \<in> set (edges_of fs)"
      by (auto simp: find_Some_iff)
    with k show "k \<in> edge_key ` set (edges_of fs)" by auto
  next
    assume "k \<in> edge_key ` set (edges_of fs)"
    then have "find (\<lambda>e. edge_key e = k) (edges_of fs) \<noteq> None"
      by (auto simp: find_None_iff)
    then obtain l where "map_of ?d k = Some l"
      unfolding add_faces_fold map_of_fold_add_link by auto
    then have kl: "(k, l) \<in> set ?d" by (rule map_of_SomeD)
    with ok have "k = edge_key l" by (auto simp: dict_ok_def)
    with kl show "k \<in> edge_key ` set (map snd ?d)" by force
  qed
  then show ?thesis by blast
qed

lemma links_distinct_keys: "distinct (map edge_key (map snd (add_faces fs [])))"
proof -
  let ?d = "add_faces fs []"
  have ok: "dict_ok ?d" unfolding add_faces_fold by (rule fold_add_link_ok) (simp add: dict_ok_def)
  then have "map edge_key (map snd ?d) = map fst ?d"
    by (auto simp: dict_ok_def)
  moreover from ok have "distinct (map fst ?d)" by (simp add: dict_ok_def)
  ultimately show ?thesis by (simp only:)
qed

lemma link_key_inj:
  assumes "0 \<le> p" "p < 2 ^ 32" "0 \<le> q" "q < 2 ^ 32" "0 \<le> p'" "p' < 2 ^ 32" "0 \<le> q'" "q' < 2 ^ 32"
  shows "link_key p q = link_key p' q' \<longleftrightarrow> {p, q} = {p', q'}"
proof
  assume eq: "link_key p q = link_key p' q'"
  have b: "0 \<le> max p q" "max p q < 2 ^ 32" "0 \<le> max p' q'" "max p' q' < 2 ^ 32"
    using assms by auto
  from eq have e: "min p q * 2 ^ 32 + max p q = min p' q' * 2 ^ 32 + max p' q'"
    by (simp add: link_key_def push_bit_eq_mult)
  have "(min p q * 2 ^ 32 + max p q) mod 2 ^ 32 = max p q"
    "(min p' q' * 2 ^ 32 + max p' q') mod 2 ^ 32 = max p' q'"
    using b by simp_all
  with e have mx: "max p q = max p' q'" by simp
  with e have mn: "min p q = min p' q'" by simp
  from mx mn show "{p, q} = {p', q'}" by (auto simp: min_def max_def split: if_splits)
next
  assume "{p, q} = {p', q'}"
  then have "(p = p' \<and> q = q') \<or> (p = q' \<and> q = p')" by (auto simp: doubleton_eq_iff)
  then show "link_key p q = link_key p' q'"
    by (auto simp: link_key_def min.commute max.commute)
qed

subsection \<open>Direction signs and padding\<close>

text \<open>
  Claim C10. After \<open>setup_links\<close>, for every node and every slot \<open>s < 6\<close>: the
  direction sign is -1 or 1 exactly when the slot of \<open>links_at_node\<close> holds a link index
  (\<open>\<ge> 0\<close>), and it is 0 exactly when the slot holds the sentinel -1; every slot is of one
  of the two kinds. Hence the number of nonzero direction signs of a node is its number
  of incident links, while the number of direction signs different from -1 is 6 minus
  the number of links whose tail is the node.
\<close>

theorem link_dirs_padding:
  assumes run: "setup_links K ico_faces g = Inr g'"
    and node: "node < number_of_nodes g" and s: "s < 6"
  shows "(0 \<le> links_at_node g' ! node ! s \<longleftrightarrow>
            link_dirs_at_node g' ! node ! s = - 1 \<or> link_dirs_at_node g' ! node ! s = 1) \<and>
         (links_at_node g' ! node ! s = - 1 \<longleftrightarrow> link_dirs_at_node g' ! node ! s = 0) \<and>
         (0 \<le> links_at_node g' ! node ! s \<or> links_at_node g' ! node ! s = - 1) \<and>
         length (filter (\<lambda>d. d \<noteq> 0) (link_dirs_at_node g' ! node)) =
           length (filter (\<lambda>l. 0 \<le> l) (links_at_node g' ! node)) \<and>
         length (filter (\<lambda>d. d \<noteq> - 1) (link_dirs_at_node g' ! node)) =
           6 - length (filter (\<lambda>l. np_index (number_of_nodes g) (fst l) = Inr node) (map snd (links g')))"
proof -
  define E where "E = ends_at (number_of_nodes g) node 0 (map snd (links g'))"
  note rows = setup_links_rows[OF run node, folded E_def]
  have ok: "\<forall>e\<in>set E. 0 \<le> fst e \<and> (snd e = - 1 \<or> snd e = 1)"
    unfolding E_def by (rule ends_at_ok)
  from padded_slot[OF ok s rows(1)]
  have slot: "(0 \<le> links_at_node g' ! node ! s \<longleftrightarrow>
            link_dirs_at_node g' ! node ! s = - 1 \<or> link_dirs_at_node g' ! node ! s = 1) \<and>
         (links_at_node g' ! node ! s = - 1 \<longleftrightarrow> link_dirs_at_node g' ! node ! s = 0) \<and>
         (0 \<le> links_at_node g' ! node ! s \<or> links_at_node g' ! node ! s = - 1)"
    unfolding rows(2,3) by (cases "s < length E") auto
  have len: "length E = length (filter (\<lambda>l. np_index (number_of_nodes g) (fst l) = Inr node) (map snd (links g')))
      + length (filter (\<lambda>e. snd e = 1) E)"
    unfolding E_def heads_ends_at length_ends_at by simp
  have cnt: "length (filter (\<lambda>d. d \<noteq> 0) (link_dirs_at_node g' ! node)) =
           length (filter (\<lambda>l. 0 \<le> l) (links_at_node g' ! node))"
    unfolding rows(2,3) padded_counts[OF ok] by simp
  have neg: "length (filter (\<lambda>d. d \<noteq> - 1) (link_dirs_at_node g' ! node)) =
           6 - length (filter (\<lambda>l. np_index (number_of_nodes g) (fst l) = Inr node) (map snd (links g')))"
    unfolding rows(3) padded_counts(3)[OF ok] using len rows(1) by simp
  from slot cnt neg show ?thesis by blast
qed

theorem link_dirs_padding_witness:
  "setup_links sample_kernel icosahedron_faces icosahedron_nodes =
     Inr (projr (setup_links sample_kernel icosahedron_faces icosahedron_nodes)) \<and>
   (1::nat) < number_of_nodes icosahedron_nodes \<and> (5::nat) < 6 \<and>
   links_at_node (projr (setup_links sample_kernel icosahedron_faces icosahedron_nodes)) ! 1 ! 5 = - 1 \<and>
   link_dirs_at_node (projr (setup_links sample_kernel icosahedron_faces icosahedron_nodes)) ! 1 ! 5 = 0 \<and>
   length (filter (\<lambda>d. d \<noteq> 0)
     (link_dirs_at_node (projr (setup_links sample_kernel icosahedron_faces icosahedron_nodes)) ! 1)) =
   length (filter (\<lambda>l. 0 \<le> l)
     (links_at_node (projr (setup_links sample_kernel icosahedron_faces icosahedron_nodes)) ! 1))"
proof -
  have ok: "\<not> isl (setup_links sample_kernel icosahedron_faces icosahedron_nodes)"
    by code_simp
  then have run: "setup_links sample_kernel icosahedron_faces icosahedron_nodes =
     Inr (projr (setup_links sample_kernel icosahedron_faces icosahedron_nodes))"
    by simp
  have n: "(1::nat) < number_of_nodes icosahedron_nodes"
    by code_simp
  have pad: "links_at_node (projr (setup_links sample_kernel icosahedron_faces icosahedron_nodes)) ! 1 ! 5 = - 1"
    by code_simp
  from link_dirs_padding[OF run n, of 5] pad run n show ?thesis by simp
qed

lemma setup_links_fields:
  assumes run: "setup_links K ico_faces g = Inr g'"
  shows "links g' = add_faces ico_faces []"
    and "number_of_links g' = length (links g')"
    and "number_of_nodes g' = number_of_nodes g"
    and "radius g' = radius g"
    and "coords_of_node g' = coords_of_node g"
proof -
  from run obtain t where
    loop: "link_loop K (radius g) (coords_of_node g) (map snd (add_faces ico_faces [])) 0
       (initial_link_tables (number_of_nodes g) ((3 * length ico_faces) div 2) (length (add_faces ico_faces []))) = Inr t"
    and g': "g' = g\<lparr>links := add_faces ico_faces [],
            nodes_at_link := lt_nodes_at_link t,
            links_at_node := lt_links_at_node t,
            link_dirs_at_node := lt_link_dirs_at_node t,
            number_of_links := length (add_faces ico_faces []),
            length_of_link := lt_length_of_link t\<rparr>"
    by (rule setup_links_Inr)
  show "links g' = add_faces ico_faces []"
    and "number_of_links g' = length (links g')"
    and "number_of_nodes g' = number_of_nodes g"
    and "radius g' = radius g"
    and "coords_of_node g' = coords_of_node g"
    by (simp_all add: g')
qed

lemma setup_links_link_rows:
  assumes run: "setup_links K ico_faces g = Inr g'"
  shows "rows_ok ((3 * length ico_faces) div 2) K (radius g) (coords_of_node g) (map snd (links g'))
           \<lparr>lt_nodes_at_link = nodes_at_link g', lt_links_at_node = links_at_node g',
            lt_link_dirs_at_node = link_dirs_at_node g', lt_link_at_node_index = [],
            lt_length_of_link = length_of_link g'\<rparr>"
proof -
  from run obtain t where
    loop: "link_loop K (radius g) (coords_of_node g) (map snd (add_faces ico_faces [])) 0
       (initial_link_tables (number_of_nodes g) ((3 * length ico_faces) div 2) (length (add_faces ico_faces []))) = Inr t"
    and g': "g' = g\<lparr>links := add_faces ico_faces [],
            nodes_at_link := lt_nodes_at_link t,
            links_at_node := lt_links_at_node t,
            link_dirs_at_node := lt_link_dirs_at_node t,
            number_of_links := length (add_faces ico_faces []),
            length_of_link := lt_length_of_link t\<rparr>"
    by (rule setup_links_Inr)
  from loop have "link_loop K (radius g) (coords_of_node g) (map snd (add_faces ico_faces [])) (int (length ([]::(int \<times> int) list)))
       (initial_link_tables (number_of_nodes g) ((3 * length ico_faces) div 2) (length (add_faces ico_faces []))) = Inr t"
    by simp
  from link_loop_rows[OF initial_rows_ok this]
  have "rows_ok ((3 * length ico_faces) div 2) K (radius g) (coords_of_node g) (map snd (add_faces ico_faces [])) t"
    by simp
  then show ?thesis by (simp add: rows_ok_def g')
qed

lemma setup_links_link_ends:
  assumes run: "setup_links K ico_faces g = Inr g'"
  shows "link_ends g' = map snd (links g')"
proof -
  let ?ls = "map snd (links g')"
  from setup_links_link_rows[OF run]
  have nal: "nodes_at_link g' = map (\<lambda>l. [fst l, snd l]) ?ls @
       replicate ((3 * length ico_faces) div 2 - length ?ls) [0, 0]"
    by (simp add: rows_ok_def)
  have "take (number_of_links g') (nodes_at_link g') = map (\<lambda>l. [fst l, snd l]) ?ls"
    unfolding setup_links_fields(2)[OF run] by (subst nal) simp
  then show ?thesis by (simp add: link_ends_def comp_def)
qed

lemma setup_links_resolves:
  assumes run: "setup_links K ico_faces g = Inr g'" and l: "l \<in> set (map snd (links g'))"
  shows "(\<exists>a. np_index (number_of_nodes g) (fst l) = Inr a) \<and> (\<exists>b. np_index (number_of_nodes g) (snd l) = Inr b)"
proof -
  from run obtain t where
    loop: "link_loop K (radius g) (coords_of_node g) (map snd (add_faces ico_faces [])) 0
       (initial_link_tables (number_of_nodes g) ((3 * length ico_faces) div 2) (length (add_faces ico_faces []))) = Inr t"
    by (rule setup_links_Inr)
  from l have "l \<in> set (map snd (add_faces ico_faces []))"
    by (simp add: setup_links_fields(1)[OF run])
  from link_loop_resolves[OF initial_tables_ok loop this] show ?thesis .
qed

subsection \<open>Incident-link tables\<close>

text \<open>
  Claim C4. After \<open>setup_links\<close>, every link \<open>i\<close> occupies a slot of its tail node with
  direction sign -1 and a slot of its head node with direction sign 1. The row of a node
  lists its link ends in link order from slot 0 on (each end went to the next free
  slot), followed by the sentinel -1 up to the capacity 6; the direction row lists the
  signs, followed by 0. The number of valid entries of a row is the degree of the node,
  which is at most 6 (5 on every node of the base icosahedron), and the degrees add up to
  twice the number of links.
\<close>

theorem incident_links_recorded:
  assumes run: "setup_links K ico_faces g = Inr g'"
  shows "(\<forall>i<number_of_links g'. \<exists>a b sa sb.
            np_index (number_of_nodes g') (nodes_at_link g' ! i ! 0) = Inr a \<and>
            np_index (number_of_nodes g') (nodes_at_link g' ! i ! 1) = Inr b \<and>
            sa < 6 \<and> sb < 6 \<and>
            links_at_node g' ! a ! sa = int i \<and> link_dirs_at_node g' ! a ! sa = - 1 \<and>
            links_at_node g' ! b ! sb = int i \<and> link_dirs_at_node g' ! b ! sb = 1) \<and>
         (\<forall>r<number_of_nodes g'.
            node_degree g' r \<le> 6 \<and>
            length (filter (\<lambda>l. 0 \<le> l) (links_at_node g' ! r)) = node_degree g' r \<and>
            links_at_node g' ! r =
              map fst (incident_ends g' r) @ replicate (6 - node_degree g' r) (- 1) \<and>
            link_dirs_at_node g' ! r =
              map snd (incident_ends g' r) @ replicate (6 - node_degree g' r) 0) \<and>
         (\<Sum>r<number_of_nodes g'. node_degree g' r) = 2 * number_of_links g'"
proof -
  let ?n = "number_of_nodes g'"
  let ?ls = "map snd (links g')"
  have n: "?n = number_of_nodes g" by (rule setup_links_fields(3)[OF run])
  have le: "link_ends g' = ?ls" by (rule setup_links_link_ends[OF run])
  have L: "number_of_links g' = length ?ls" by (simp add: setup_links_fields(2)[OF run])
  have deg: "node_degree g' r = length (incident_ends g' r)" for r
    by (simp add: node_degree_def incident_ends_def length_ends_at)
  have rows: "length (incident_ends g' r) \<le> 6 \<and>
      links_at_node g' ! r = map fst (incident_ends g' r) @ replicate (6 - length (incident_ends g' r)) (- 1) \<and>
      link_dirs_at_node g' ! r = map snd (incident_ends g' r) @ replicate (6 - length (incident_ends g' r)) 0"
    if "r < ?n" for r
    using setup_links_rows[OF run, of r] that by (simp add: n incident_ends_def le)
  have ok: "\<forall>e\<in>set (incident_ends g' r). 0 \<le> fst e \<and> (snd e = - 1 \<or> snd e = 1)" for r
    unfolding incident_ends_def by (rule ends_at_ok)
  have part1: "\<exists>a b sa sb.
            np_index ?n (nodes_at_link g' ! i ! 0) = Inr a \<and>
            np_index ?n (nodes_at_link g' ! i ! 1) = Inr b \<and>
            sa < 6 \<and> sb < 6 \<and>
            links_at_node g' ! a ! sa = int i \<and> link_dirs_at_node g' ! a ! sa = - 1 \<and>
            links_at_node g' ! b ! sb = int i \<and> link_dirs_at_node g' ! b ! sb = 1"
    if i: "i < number_of_links g'" for i
  proof -
    from i L have il: "i < length ?ls" by simp
    from setup_links_link_rows[OF run] il
    have row: "nodes_at_link g' ! i = [fst (?ls ! i), snd (?ls ! i)]"
      by (simp add: rows_ok_def nth_append)
    from il have "?ls ! i \<in> set ?ls" by (rule nth_mem)
    from setup_links_resolves[OF run this] obtain a b where
      a: "np_index ?n (fst (?ls ! i)) = Inr a" and b: "np_index ?n (snd (?ls ! i)) = Inr b"
      by (auto simp: n)
    from a b have an: "a < ?n" and bn: "b < ?n" by (auto dest: np_index_less)
    from ends_at_tail[OF il a, of 0] have "(int i, - 1) \<in> set (incident_ends g' a)"
      by (simp add: incident_ends_def le)
    then obtain sa where sa: "sa < length (incident_ends g' a)" "incident_ends g' a ! sa = (int i, - 1)"
      by (auto simp: in_set_conv_nth)
    from ends_at_head[OF il b, of 0] have "(int i, 1) \<in> set (incident_ends g' b)"
      by (simp add: incident_ends_def le)
    then obtain sb where sb: "sb < length (incident_ends g' b)" "incident_ends g' b ! sb = (int i, 1)"
      by (auto simp: in_set_conv_nth)
    from rows[OF an] sa have A: "sa < 6" "links_at_node g' ! a ! sa = int i" "link_dirs_at_node g' ! a ! sa = - 1"
      by (simp_all add: nth_append)
    from rows[OF bn] sb have B: "sb < 6" "links_at_node g' ! b ! sb = int i" "link_dirs_at_node g' ! b ! sb = 1"
      by (simp_all add: nth_append)
    from a b A B show ?thesis unfolding row by auto
  qed
  have part2: "node_degree g' r \<le> 6 \<and>
            length (filter (\<lambda>l. 0 \<le> l) (links_at_node g' ! r)) = node_degree g' r \<and>
            links_at_node g' ! r =
              map fst (incident_ends g' r) @ replicate (6 - node_degree g' r) (- 1) \<and>
            link_dirs_at_node g' ! r =
              map snd (incident_ends g' r) @ replicate (6 - node_degree g' r) 0"
    if r: "r < ?n" for r
  proof -
    have "length (filter (\<lambda>l. 0 \<le> l) (links_at_node g' ! r)) = length (incident_ends g' r)"
      using rows[OF r] padded_counts(1)[OF ok[of r]] by simp
    with rows[OF r] show ?thesis by (simp add: deg)
  qed
  have res: "\<forall>l\<in>set ?ls. \<exists>a. np_index ?n (fst l) = Inr a" "\<forall>l\<in>set ?ls. \<exists>b. np_index ?n (snd l) = Inr b"
    using setup_links_resolves[OF run] by (auto simp: n)
  have part3: "(\<Sum>r<?n. node_degree g' r) = 2 * number_of_links g'"
    unfolding node_degree_def le sum.distrib
    using sum_filter_ends[OF res(1)] sum_filter_ends[OF res(2)] by (simp add: L)
  from part1 part2 part3 show ?thesis by blast
qed

theorem incident_links_recorded_witness:
  "setup_links sample_kernel icosahedron_faces icosahedron_nodes =
     Inr (projr (setup_links sample_kernel icosahedron_faces icosahedron_nodes)) \<and>
   number_of_links (projr (setup_links sample_kernel icosahedron_faces icosahedron_nodes)) = 30 \<and>
   node_degree (projr (setup_links sample_kernel icosahedron_faces icosahedron_nodes)) 0 = 5 \<and>
   links_at_node (projr (setup_links sample_kernel icosahedron_faces icosahedron_nodes)) ! 0 =
     [0, 2, 4, 6, 8, - 1] \<and>
   (\<Sum>r<number_of_nodes (projr (setup_links sample_kernel icosahedron_faces icosahedron_nodes)).
      node_degree (projr (setup_links sample_kernel icosahedron_faces icosahedron_nodes)) r) = 60"
proof -
  have ok: "\<not> isl (setup_links sample_kernel icosahedron_faces icosahedron_nodes)"
    by code_simp
  then have run: "setup_links sample_kernel icosahedron_faces icosahedron_nodes =
     Inr (projr (setup_links sample_kernel icosahedron_faces icosahedron_nodes))"
    by simp
  have L: "number_of_links (projr (setup_links sample_kernel icosahedron_faces icosahedron_nodes)) = 30"
    by code_simp
  have d: "node_degree (projr (setup_links sample_kernel icosahedron_faces icosahedron_nodes)) 0 = 5"
    by code_simp
  have row: "links_at_node (projr (setup_links sample_kernel icosahedron_faces icosahedron_nodes)) ! 0 =
     [0, 2, 4, 6, 8, - 1]"
    by code_simp
  from incident_links_recorded[OF run] L
  have "(\<Sum>r<number_of_nodes (projr (setup_links sample_kernel icosahedron_faces icosahedron_nodes)).
      node_degree (projr (setup_links sample_kernel icosahedron_faces icosahedron_nodes)) r) = 60"
    by simp
  with run L d row show ?thesis by blast
qed

lemma edges_bounded:
  "index_bounded fs \<Longrightarrow> e \<in> set (edges_of fs) \<Longrightarrow>
   0 \<le> fst e \<and> fst e < 2 ^ 32 \<and> 0 \<le> snd e \<and> snd e < 2 ^ 32"
  by (fastforce simp: index_bounded_def edges_of_def)

lemma edge_key_upair:
  assumes "0 \<le> fst e \<and> fst e < 2 ^ 32 \<and> 0 \<le> snd e \<and> snd e < 2 ^ 32"
    and "0 \<le> fst e' \<and> fst e' < 2 ^ 32 \<and> 0 \<le> snd e' \<and> snd e' < 2 ^ 32"
  shows "edge_key e = edge_key e' \<longleftrightarrow> upair e = upair e'"
  unfolding edge_key_def upair_def using assms by (intro link_key_inj) simp_all

subsection \<open>One link per node pair\<close>

text \<open>
  Claim C3, amended. For every triangle list with node indices in \<open>[0, 2^32)\<close> on which
  \<open>setup_links\<close> returns: the number of links is the number of unordered node pairs that
  are an edge of some triangle, the links have pairwise different unordered node pairs,
  every such pair has its link, the (tail, head) of a link is the first directed triangle
  edge visited for its pair, and the length of a link is the radius times the kernel's
  arc length between the coordinates of its end nodes.
\<close>

theorem one_link_per_node_pair:
  assumes run: "setup_links K ico_faces g = Inr g'" and bounded: "index_bounded ico_faces"
  shows "number_of_links g' = card (upair ` set (edges_of ico_faces)) \<and>
         upair ` set (link_ends g') = upair ` set (edges_of ico_faces) \<and>
         distinct (map upair (link_ends g')) \<and>
         length (link_ends g') = number_of_links g' \<and>
         (\<forall>i<number_of_links g'.
            nodes_at_link g' ! i = [fst (link_ends g' ! i), snd (link_ends g' ! i)] \<and>
            find (\<lambda>e. upair e = upair (link_ends g' ! i)) (edges_of ico_faces) = Some (link_ends g' ! i) \<and>
            (\<exists>p q. np_get (coords_of_node g') (fst (link_ends g' ! i)) = Inr p \<and>
                   np_get (coords_of_node g') (snd (link_ends g' ! i)) = Inr q \<and>
                   length_of_link g' ! i = radius g' * arc_length K p q (radius g')))"
proof -
  let ?ls = "link_ends g'"
  let ?es = "edges_of ico_faces"
  have le: "?ls = map snd (links g')" by (rule setup_links_link_ends[OF run])
  have lks: "links g' = add_faces ico_faces []" by (rule setup_links_fields(1)[OF run])
  have L: "number_of_links g' = length ?ls" by (simp add: le setup_links_fields(2)[OF run])
  have first: "find (\<lambda>e. edge_key e = edge_key l) ?es = Some l" if "l \<in> set ?ls" for l
    using that links_first_seen[of l ico_faces] by (simp add: le lks)
  have mem: "l \<in> set ?es" if "l \<in> set ?ls" for l
    using first[OF that] by (auto simp: find_Some_iff)
  have bl: "0 \<le> fst l \<and> fst l < 2 ^ 32 \<and> 0 \<le> snd l \<and> snd l < 2 ^ 32" if "l \<in> set ?ls" for l
    using edges_bounded[OF bounded mem[OF that]] .
  have be: "0 \<le> fst e \<and> fst e < 2 ^ 32 \<and> 0 \<le> snd e \<and> snd e < 2 ^ 32" if "e \<in> set ?es" for e
    using edges_bounded[OF bounded that] .
  have dk: "distinct (map edge_key ?ls)" using links_distinct_keys[of ico_faces] by (simp add: le lks)
  have keys: "edge_key ` set ?ls = edge_key ` set ?es" using links_keys[of ico_faces] by (simp add: le lks)
  have inj: "inj_on upair (set ?ls)"
  proof (rule inj_onI)
    fix x y assume x: "x \<in> set ?ls" and y: "y \<in> set ?ls" and u: "upair x = upair y"
    from u edge_key_upair[OF bl[OF x] bl[OF y]] have "edge_key x = edge_key y" by simp
    with dk x y show "x = y" by (auto simp: distinct_map dest: inj_onD)
  qed
  from dk have dl: "distinct ?ls" by (simp add: distinct_map)
  with inj have du: "distinct (map upair ?ls)" by (simp add: distinct_map)
  have img: "upair ` set ?ls = upair ` set ?es"
  proof (intro set_eqI iffI)
    fix u assume "u \<in> upair ` set ?ls"
    then show "u \<in> upair ` set ?es" using mem by auto
  next
    fix u assume "u \<in> upair ` set ?es"
    then obtain e where e: "e \<in> set ?es" and u: "u = upair e" by auto
    from e keys obtain l where l: "l \<in> set ?ls" and k: "edge_key l = edge_key e" by (metis imageE imageI)
    from k edge_key_upair[OF bl[OF l] be[OF e]] have "upair l = upair e" by simp
    with l u show "u \<in> upair ` set ?ls" by auto
  qed
  have card: "number_of_links g' = card (upair ` set ?es)"
    using distinct_card[OF du] by (simp add: L img[symmetric])
  have per: "nodes_at_link g' ! i = [fst (?ls ! i), snd (?ls ! i)] \<and>
            find (\<lambda>e. upair e = upair (?ls ! i)) ?es = Some (?ls ! i) \<and>
            (\<exists>p q. np_get (coords_of_node g') (fst (?ls ! i)) = Inr p \<and>
                   np_get (coords_of_node g') (snd (?ls ! i)) = Inr q \<and>
                   length_of_link g' ! i = radius g' * arc_length K p q (radius g'))"
    if i: "i < number_of_links g'" for i
  proof -
    from i L have il: "i < length ?ls" by simp
    then have ls: "?ls ! i \<in> set ?ls" by (rule nth_mem)
    note rows = setup_links_link_rows[OF run, folded le]
    from rows il have row: "nodes_at_link g' ! i = [fst (?ls ! i), snd (?ls ! i)]"
      by (simp add: rows_ok_def nth_append)
    from rows il have len: "\<exists>p q. np_get (coords_of_node g) (fst (?ls ! i)) = Inr p \<and>
                   np_get (coords_of_node g) (snd (?ls ! i)) = Inr q \<and>
                   length_of_link g' ! i = radius g * arc_length K p q (radius g)"
      by (simp add: rows_ok_def)
    have "find (\<lambda>e. upair e = upair (?ls ! i)) ?es = find (\<lambda>e. edge_key e = edge_key (?ls ! i)) ?es"
      by (rule find_cong) (auto simp: edge_key_upair[OF be bl[OF ls]])
    with first[OF ls] row len show ?thesis
      by (simp add: setup_links_fields(4,5)[OF run])
  qed
  from card img du L per show ?thesis by simp
qed

theorem one_link_per_node_pair_witness:
  "setup_links sample_kernel icosahedron_faces icosahedron_nodes =
     Inr (projr (setup_links sample_kernel icosahedron_faces icosahedron_nodes)) \<and>
   index_bounded icosahedron_faces \<and>
   number_of_links (projr (setup_links sample_kernel icosahedron_faces icosahedron_nodes)) = 30 \<and>
   card (upair ` set (edges_of icosahedron_faces)) = 30 \<and>
   nodes_at_link (projr (setup_links sample_kernel icosahedron_faces icosahedron_nodes)) ! 2 = [5, 0]"
proof -
  have ok: "\<not> isl (setup_links sample_kernel icosahedron_faces icosahedron_nodes)"
    by code_simp
  then have run: "setup_links sample_kernel icosahedron_faces icosahedron_nodes =
     Inr (projr (setup_links sample_kernel icosahedron_faces icosahedron_nodes))"
    by simp
  have b: "index_bounded icosahedron_faces"
    by (simp add: index_bounded_def icosahedron_faces_def)
  have L: "number_of_links (projr (setup_links sample_kernel icosahedron_faces icosahedron_nodes)) = 30"
    by code_simp
  have row: "nodes_at_link (projr (setup_links sample_kernel icosahedron_faces icosahedron_nodes)) ! 2 = [5, 0]"
    by code_simp
  from one_link_per_node_pair[OF run b] L
  have "card (upair ` set (edges_of icosahedron_faces)) = 30" by simp
  with run b L row show ?thesis by blast
qed

text \<open>
  The claim as stated, for every triangle list, fails: for a single triangle the table
  \<open>nodes_at_link\<close> has \<open>int(1.5 * 1) = 1\<close> row, and entering the second of the three
  links raises IndexError.
\<close>

theorem setup_links_open_mesh_counterexample:
  "setup_links sample_kernel [(0, 1, 2)] (setup_nodes triangle_points (new_graph 1)) = Inl IndexError"
  by code_simp

section \<open>What each builder changes\<close>

lemma phi_of_node_frame:
  assumes "phi_of_node K g = Inr (v, g1)"
  shows "\<exists>mr mp mt. g1 = g\<lparr>memo_r_of_node := mr, memo_phi_of_node := mp, memo_theta_of_node := mt\<rparr>"
proof (cases "memo_phi_of_node g")
  case None
  with assms have "g1 = setup_node_spherical_coords K g"
    by (auto simp: phi_of_node_def Let_def split: option.splits)
  then show ?thesis unfolding setup_node_spherical_coords_def Let_def by blast
next
  case (Some a)
  with assms have "g1 = g" by (simp add: phi_of_node_def)
  then have "g1 = g\<lparr>memo_r_of_node := memo_r_of_node g, memo_phi_of_node := memo_phi_of_node g,
     memo_theta_of_node := memo_theta_of_node g\<rparr>" by simp
  then show ?thesis by blast
qed

lemma theta_of_node_frame:
  assumes "theta_of_node K g = Inr (v, g1)"
  shows "\<exists>mr mp mt. g1 = g\<lparr>memo_r_of_node := mr, memo_phi_of_node := mp, memo_theta_of_node := mt\<rparr>"
proof (cases "memo_theta_of_node g")
  case None
  with assms have "g1 = setup_node_spherical_coords K g"
    by (auto simp: theta_of_node_def Let_def split: option.splits)
  then show ?thesis unfolding setup_node_spherical_coords_def Let_def by blast
next
  case (Some a)
  with assms have "g1 = g" by (simp add: theta_of_node_def)
  then have "g1 = g\<lparr>memo_r_of_node := memo_r_of_node g, memo_phi_of_node := memo_phi_of_node g,
     memo_theta_of_node := memo_theta_of_node g\<rparr>" by simp
  then show ?thesis by blast
qed

lemma sort_node_frame:
  assumes "sort_node K node g = Inr g'"
  shows "\<exists>can mr mp mt. g' = g\<lparr>corners_at_node := can, memo_r_of_node := mr,
           memo_phi_of_node := mp, memo_theta_of_node := mt\<rparr>"
proof -
  from assms obtain phis g1 thetas g2 can where
    p: "phi_of_node K g = Inr (phis, g1)" and t: "theta_of_node K g1 = Inr (thetas, g2)"
    and g': "g' = g2\<lparr>corners_at_node := can\<rparr>"
    by (auto simp: sort_node_def Let_def ebind_Inr split: prod.splits)
  from phi_of_node_frame[OF p] obtain mr mp mt where
    g1: "g1 = g\<lparr>memo_r_of_node := mr, memo_phi_of_node := mp, memo_theta_of_node := mt\<rparr>" by blast
  from theta_of_node_frame[OF t] obtain mr' mp' mt' where
    g2: "g2 = g1\<lparr>memo_r_of_node := mr', memo_phi_of_node := mp', memo_theta_of_node := mt'\<rparr>" by blast
  have "g' = g\<lparr>corners_at_node := can, memo_r_of_node := mr',
           memo_phi_of_node := mp', memo_theta_of_node := mt'\<rparr>"
    by (simp add: g' g2 g1)
  then show ?thesis by blast
qed

lemma sort_nodes_frame:
  "sort_nodes K ns g = Inr g' \<Longrightarrow>
   \<exists>can mr mp mt. g' = g\<lparr>corners_at_node := can, memo_r_of_node := mr,
           memo_phi_of_node := mp, memo_theta_of_node := mt\<rparr>"
proof (induction ns arbitrary: g)
  case Nil
  then have "g' = g\<lparr>corners_at_node := corners_at_node g, memo_r_of_node := memo_r_of_node g,
           memo_phi_of_node := memo_phi_of_node g, memo_theta_of_node := memo_theta_of_node g\<rparr>"
    by simp
  then show ?case by blast
next
  case (Cons node ns)
  from Cons.prems obtain g1 where 1: "sort_node K node g = Inr g1" and 2: "sort_nodes K ns g1 = Inr g'"
    by (auto simp: ebind_Inr)
  from sort_node_frame[OF 1] obtain can mr mp mt where
    g1: "g1 = g\<lparr>corners_at_node := can, memo_r_of_node := mr,
           memo_phi_of_node := mp, memo_theta_of_node := mt\<rparr>" by blast
  from Cons.IH[OF 2] obtain can' mr' mp' mt' where
    g': "g' = g1\<lparr>corners_at_node := can', memo_r_of_node := mr',
           memo_phi_of_node := mp', memo_theta_of_node := mt'\<rparr>" by blast
  have "g' = g\<lparr>corners_at_node := can', memo_r_of_node := mr',
           memo_phi_of_node := mp', memo_theta_of_node := mt'\<rparr>"
    by (simp add: g' g1)
  then show ?case by blast
qed

lemma set_coords_of_corner_frame:
  assumes "set_coords_of_corner g = Inr g'"
  shows "\<exists>cc. g' = g\<lparr>coords_of_corner := cc\<rparr>"
  using assms unfolding set_coords_of_corner_def ebind_Inr by auto

lemma setup_patches_and_corners_frame:
  assumes "setup_patches_and_corners K ico_faces g = Inr g'"
  shows "\<exists>can cc mr mp mt. g' = g\<lparr>number_of_corners := length ico_faces,
            number_of_patches := length ico_faces,
            nodes_at_patch := map (\<lambda>(a, b, c). [a, b, c]) ico_faces,
            corners_at_node := can, coords_of_corner := cc, memo_r_of_node := mr,
            memo_phi_of_node := mp, memo_theta_of_node := mt\<rparr>"
proof -
  from assms obtain can idx g1 where
    1: "set_coords_of_corner (g\<lparr>number_of_corners := length ico_faces,
                  number_of_patches := length ico_faces,
                  nodes_at_patch := map (\<lambda>(a, b, c). [a, b, c]) ico_faces,
                  corners_at_node := can\<rparr>) = Inr g1"
    and 2: "sort_corners_ccw K g1 = Inr g'"
    by (auto simp: setup_patches_and_corners_def Let_def ebind_Inr split: prod.splits)
  from set_coords_of_corner_frame[OF 1] obtain cc where
    g1: "g1 = g\<lparr>number_of_corners := length ico_faces,
                  number_of_patches := length ico_faces,
                  nodes_at_patch := map (\<lambda>(a, b, c). [a, b, c]) ico_faces,
                  corners_at_node := can, coords_of_corner := cc\<rparr>" by auto
  from 2 sort_nodes_frame obtain can' mr mp mt where
    "g' = g1\<lparr>corners_at_node := can', memo_r_of_node := mr,
           memo_phi_of_node := mp, memo_theta_of_node := mt\<rparr>"
    unfolding sort_corners_ccw_def by blast
  then have "g' = g\<lparr>number_of_corners := length ico_faces,
            number_of_patches := length ico_faces,
            nodes_at_patch := map (\<lambda>(a, b, c). [a, b, c]) ico_faces,
            corners_at_node := can', coords_of_corner := cc, memo_r_of_node := mr,
            memo_phi_of_node := mp, memo_theta_of_node := mt\<rparr>"
    by (simp add: g1)
  then show ?thesis by blast
qed

lemma setup_faces_frame:
  assumes "setup_faces K g = Inr g'"
  shows "\<exists>caf lof. g' = g\<lparr>number_of_faces := number_of_links g, corners_at_face := caf,
            length_of_face := lof\<rparr>"
  using assms unfolding setup_faces_def ebind_Inr by auto

lemma setup_cells_frame:
  assumes "setup_cells K g = Inr g'"
  shows "\<exists>areas. g' = g\<lparr>number_of_cells := number_of_nodes g, area_of_cell := areas\<rparr>"
  using assms unfolding setup_cells_def ebind_Inr by auto

lemma setup_links_frame:
  assumes "setup_links K ico_faces g = Inr g'"
  shows "\<exists>ls nal lan ldn lol. g' = g\<lparr>links := ls, nodes_at_link := nal, links_at_node := lan,
            link_dirs_at_node := ldn, number_of_links := length ls, length_of_link := lol\<rparr>"
  using setup_links_Inr[OF assms] by metis

lemma construct_stages:
  assumes "construct K r ico_vertices ico_faces = Inr g"
  obtains g1 g2 g3 where
    "setup_links K ico_faces (setup_nodes ico_vertices (new_graph r)) = Inr g1"
    "setup_patches_and_corners K ico_faces g1 = Inr g2"
    "setup_faces K g2 = Inr g3"
    "setup_cells K g3 = Inr g"
  using assms unfolding construct_def ebind_Inr by blast

lemma construct_counts:
  assumes run: "construct K r ico_vertices ico_faces = Inr g"
  shows "number_of_nodes g = length ico_vertices"
    and "number_of_faces g = number_of_links g"
    and "number_of_cells g = number_of_nodes g"
    and "number_of_corners g = length ico_faces"
    and "number_of_patches g = length ico_faces"
    and "memo_cell_at_node g = None"
    and "memo_face_at_link g = None"
    and "memo_area_of_patch g = None"
    and "radius g = r"
    and "coords_of_node g = ico_vertices"
proof -
  from run obtain g1 g2 g3 where
    1: "setup_links K ico_faces (setup_nodes ico_vertices (new_graph r)) = Inr g1"
    and 2: "setup_patches_and_corners K ico_faces g1 = Inr g2"
    and 3: "setup_faces K g2 = Inr g3"
    and 4: "setup_cells K g3 = Inr g"
    by (rule construct_stages)
  from setup_links_frame[OF 1] obtain ls nal lan ldn lol where
    g1: "g1 = (setup_nodes ico_vertices (new_graph r))\<lparr>links := ls, nodes_at_link := nal, links_at_node := lan,
            link_dirs_at_node := ldn, number_of_links := length ls, length_of_link := lol\<rparr>" by blast
  from setup_patches_and_corners_frame[OF 2] obtain can cc mr mp mt where
    g2: "g2 = g1\<lparr>number_of_corners := length ico_faces,
            number_of_patches := length ico_faces,
            nodes_at_patch := map (\<lambda>(a, b, c). [a, b, c]) ico_faces,
            corners_at_node := can, coords_of_corner := cc, memo_r_of_node := mr,
            memo_phi_of_node := mp, memo_theta_of_node := mt\<rparr>" by blast
  from setup_faces_frame[OF 3] obtain caf lof where
    g3: "g3 = g2\<lparr>number_of_faces := number_of_links g2, corners_at_face := caf,
            length_of_face := lof\<rparr>" by blast
  from setup_cells_frame[OF 4] obtain areas where
    g: "g = g3\<lparr>number_of_cells := number_of_nodes g3, area_of_cell := areas\<rparr>" by blast
  show "number_of_nodes g = length ico_vertices"
    and "number_of_faces g = number_of_links g"
    and "number_of_cells g = number_of_nodes g"
    and "number_of_corners g = length ico_faces"
    and "number_of_patches g = length ico_faces"
    and "memo_cell_at_node g = None"
    and "memo_face_at_link g = None"
    and "memo_area_of_patch g = None"
    and "radius g = r"
    and "coords_of_node g = ico_vertices"
    by (simp_all add: g g3 g2 g1 setup_nodes_def new_graph_def)
qed

section \<open>Concrete evaluations\<close>

lemma replicate_numeral: "replicate (numeral k) x = x # replicate (pred_numeral k) x"
  by (simp add: numeral_eq_Suc)

lemma list_update_numeral: "(x # xs)[numeral k := v] = x # xs[pred_numeral k := v]"
  by (simp add: numeral_eq_Suc)

lemmas ev = ebind_def np_index_def np_get_def np_set_def np_get2_def np_set2_def Let_def
  replicate_numeral list_update_numeral

lemma sqrt4: "sqrt 4 = 2"
  using real_sqrt_abs[of 2] by simp

lemma pillow_run: "\<not> isl (construct sample_kernel 1 pillow_points pillow_faces)"
  by (simp add: construct_def pillow_faces_def pillow_points_def
     setup_links_def setup_nodes_def new_graph_def add_link_def link_key_def
     link_body_def enter_link_end_def
     setup_patches_and_corners_def enter_corner_def set_coords_of_corner_def
     corner_of_patch_def cross_def vsub_def veclen_def sqrt4
     sort_corners_ccw_def sort_node_def phi_of_node_def theta_of_node_def
     setup_node_spherical_coords_def corner_angle_def arctan2_def
     sample_kernel_def
     setup_faces_def register_edge_def face_of_link_def
     setup_cells_def area_of_cell_at_def ev)

section \<open>The dual complex shares the index spaces of the primal complex\<close>

text \<open>
  Claim C6. For every constructed mesh the numbers of faces and links, of cells and
  nodes, and of corners and patches agree; \<open>cell_at_node\<close>, \<open>node_at_cell\<close>,
  \<open>face_at_link\<close> and \<open>link_at_face\<close> are the identity on their index ranges (also on
  a second access, which returns the memo); the tables of the dual complex are the tables
  of the primal one.
\<close>

theorem dual_index_spaces:
  assumes run: "construct K r ico_vertices ico_faces = Inr g"
  shows "number_of_faces g = number_of_links g \<and>
         number_of_cells g = number_of_nodes g \<and>
         number_of_corners g = number_of_patches g \<and>
         patches_at_node g = corners_at_node g \<and>
         corners_at_cell g = corners_at_node g \<and>
         faces_at_cell g = links_at_node g \<and>
         length (fst (cell_at_node g)) = number_of_nodes g \<and>
         (\<forall>i<number_of_nodes g. fst (cell_at_node g) ! i = int i \<and> fst (node_at_cell g) ! i = int i) \<and>
         length (fst (face_at_link g)) = number_of_links g \<and>
         (\<forall>j<number_of_links g. fst (face_at_link g) ! j = int j \<and> fst (link_at_face g) ! j = int j) \<and>
         cell_at_node (snd (cell_at_node g)) = cell_at_node g \<and>
         face_at_link (snd (face_at_link g)) = face_at_link g"
proof -
  note c = construct_counts[OF run]
  have a: "cell_at_node g = (map int [0..<number_of_nodes g], g\<lparr>memo_cell_at_node := Some (map int [0..<number_of_nodes g])\<rparr>)"
    by (simp add: cell_at_node_def c(6) Let_def)
  have b: "face_at_link g = (map int [0..<number_of_links g], g\<lparr>memo_face_at_link := Some (map int [0..<number_of_links g])\<rparr>)"
    by (simp add: face_at_link_def c(7) Let_def)
  have a2: "cell_at_node (snd (cell_at_node g)) = cell_at_node g"
    unfolding a by (simp add: cell_at_node_def)
  have b2: "face_at_link (snd (face_at_link g)) = face_at_link g"
    unfolding b by (simp add: face_at_link_def)
  have "number_of_corners g = number_of_patches g" by (simp add: c(4,5))
  with c(2,3) a2 b2 show ?thesis
    by (simp add: node_at_cell_def link_at_face_def a b patches_at_node_def corners_at_cell_def
        faces_at_cell_def)
qed

theorem dual_index_spaces_witness:
  "construct sample_kernel 1 pillow_points pillow_faces =
     Inr (projr (construct sample_kernel 1 pillow_points pillow_faces)) \<and>
   number_of_faces (projr (construct sample_kernel 1 pillow_points pillow_faces)) =
     number_of_links (projr (construct sample_kernel 1 pillow_points pillow_faces)) \<and>
   number_of_cells (projr (construct sample_kernel 1 pillow_points pillow_faces)) =
     number_of_nodes (projr (construct sample_kernel 1 pillow_points pillow_faces)) \<and>
   number_of_corners (projr (construct sample_kernel 1 pillow_points pillow_faces)) =
     number_of_patches (projr (construct sample_kernel 1 pillow_points pillow_faces))"
proof -
  have run: "construct sample_kernel 1 pillow_points pillow_faces =
     Inr (projr (construct sample_kernel 1 pillow_points pillow_faces))"
    using pillow_run by simp
  from dual_index_spaces[OF run] run show ?thesis by blast
qed

section \<open>Lazily computed properties\<close>

text \<open>
  Claim C8. On every constructed mesh the property \<open>area_of_patch\<close> raises TypeError:
  no builder sets the private attribute, and the call that should compute it passes one
  argument too many to a method whose body sets nothing.
\<close>

theorem area_of_patch_raises:
  assumes run: "construct K r ico_vertices ico_faces = Inr g"
  shows "area_of_patch g = Inl TypeError"
  by (simp add: area_of_patch_def construct_counts(8)[OF run])

theorem area_of_patch_raises_witness:
  "construct sample_kernel 1 pillow_points pillow_faces =
     Inr (projr (construct sample_kernel 1 pillow_points pillow_faces)) \<and>
   area_of_patch (projr (construct sample_kernel 1 pillow_points pillow_faces)) = Inl TypeError"
proof -
  have run: "construct sample_kernel 1 pillow_points pillow_faces =
     Inr (projr (construct sample_kernel 1 pillow_points pillow_faces))"
    using pillow_run by simp
  from area_of_patch_raises[OF run] run show ?thesis by blast
qed

text \<open>
  The spherical coordinates behave as lazily computed and memoised: the first access
  computes them with the kernel, a later access returns the stored value and leaves the
  object as it is.
\<close>

lemma spherical_coords_memoized:
  assumes "r_of_node K g = Inr (v, g')"
  shows "r_of_node K g' = Inr (v, g')"
    and "memo_r_of_node g = None \<Longrightarrow>
         v = map (\<lambda>(x, y, z). fst (cartesian_to_spherical K x y z)) (coords_of_node g)"
proof -
  show "r_of_node K g' = Inr (v, g')"
    using assms
    by (cases "memo_r_of_node g")
       (auto simp: r_of_node_def setup_node_spherical_coords_def Let_def)
  show "v = map (\<lambda>(x, y, z). fst (cartesian_to_spherical K x y z)) (coords_of_node g)"
    if "memo_r_of_node g = None"
    using assms that
    by (auto simp: r_of_node_def setup_node_spherical_coords_def Let_def split_def)
qed

section \<open>Corners\<close>

lemma emap_Inr:
  "emap f xs = Inr ys \<Longrightarrow> length ys = length xs \<and> (\<forall>i<length xs. f (xs ! i) = Inr (ys ! i))"
proof (induction xs arbitrary: ys)
  case Nil
  then show ?case by simp
next
  case (Cons x xs)
  from Cons.prems obtain y ys' where y: "f x = Inr y" and ys': "emap f xs = Inr ys'" and ys: "ys = y # ys'"
    by (auto simp: ebind_Inr)
  from Cons.IH[OF ys'] y ys show ?case by (auto simp: nth_Cons split: nat.splits)
qed

lemma corner_of_patch_scale:
  "corner_of_patch r p0 p1 p2 = scale r (normalize (cross (vsub p1 p0) (vsub p2 p0)))"
  by (simp add: corner_of_patch_def scale_def normalize_def Let_def split: prod.splits)

lemma veclen_nonneg: "0 \<le> veclen v"
  by (simp add: veclen_def split: prod.splits)

lemma veclen_zero: "veclen v = 0 \<longleftrightarrow> v = (0, 0, 0)"
proof -
  obtain x y z where v: "v = (x, y, z)" by (cases v) auto
  have "x\<^sup>2 + y\<^sup>2 + z\<^sup>2 = 0 \<longleftrightarrow> x = 0 \<and> y = 0 \<and> z = 0"
    by (simp add: add_nonneg_eq_0_iff)
  then show ?thesis by (simp add: v veclen_def)
qed

lemma veclen_scale_normalize:
  assumes "v \<noteq> (0, 0, 0)" and "0 \<le> r"
  shows "veclen (scale r (normalize v)) = r"
proof -
  obtain x y z where v: "v = (x, y, z)" by (cases v) auto
  define l where "l = veclen v"
  from assms(1) have l0: "l \<noteq> 0" by (simp add: l_def veclen_zero)
  have lpos: "0 < l" using veclen_nonneg[of v] l0 by (simp add: l_def)
  have l2: "l\<^sup>2 = x\<^sup>2 + y\<^sup>2 + z\<^sup>2"
    by (simp add: l_def v veclen_def)
  have "(r * (x / l))\<^sup>2 + (r * (y / l))\<^sup>2 + (r * (z / l))\<^sup>2 = (r / l)\<^sup>2 * (x\<^sup>2 + y\<^sup>2 + z\<^sup>2)"
    by (simp add: power_mult_distrib power_divide add_divide_distrib distrib_left)
  also have "\<dots> = r\<^sup>2" using l0 by (simp add: l2[symmetric] power_divide)
  finally have "sqrt ((r * (x / l))\<^sup>2 + (r * (y / l))\<^sup>2 + (r * (z / l))\<^sup>2) = r"
    using assms(2) by simp
  then show ?thesis by (simp add: scale_def normalize_def v veclen_def l_def)
qed

text \<open>
  Claim C9. For every patch \<open>p\<close> the corner's coordinates are the radius times the
  normalised cross product of \<open>p1 - p0\<close> and \<open>p2 - p0\<close>, where \<open>p0, p1, p2\<close> are the
  coordinates of the patch's three nodes in order; when the cross product is not zero
  (the patch is not degenerate) and the radius is not negative, the corner's Euclidean
  norm is the radius.
\<close>

theorem corner_on_sphere:
  assumes run: "set_coords_of_corner g = Inr g'" and p: "p < length (nodes_at_patch g)"
  shows "\<exists>p0 p1 p2.
           ebind (np_get (nodes_at_patch g ! p) 0) (np_get (coords_of_node g)) = Inr p0 \<and>
           ebind (np_get (nodes_at_patch g ! p) 1) (np_get (coords_of_node g)) = Inr p1 \<and>
           ebind (np_get (nodes_at_patch g ! p) 2) (np_get (coords_of_node g)) = Inr p2 \<and>
           length (coords_of_corner g') = length (nodes_at_patch g) \<and>
           coords_of_corner g' ! p =
             scale (radius g) (normalize (cross (vsub p1 p0) (vsub p2 p0))) \<and>
           (cross (vsub p1 p0) (vsub p2 p0) \<noteq> (0, 0, 0) \<and> 0 \<le> radius g \<longrightarrow>
              veclen (coords_of_corner g' ! p) = radius g)"
proof -
  from run obtain a b c where
    a: "emap (\<lambda>row. ebind (np_get row 0) (np_get (coords_of_node g))) (nodes_at_patch g) = Inr a"
    and b: "emap (\<lambda>row. ebind (np_get row 1) (np_get (coords_of_node g))) (nodes_at_patch g) = Inr b"
    and c: "emap (\<lambda>row. ebind (np_get row 2) (np_get (coords_of_node g))) (nodes_at_patch g) = Inr c"
    and g': "coords_of_corner g' = map (\<lambda>(a, b, c). corner_of_patch (radius g) a b c) (zip a (zip b c))"
    unfolding set_coords_of_corner_def ebind_Inr by auto
  note ea = emap_Inr[OF a] and eb = emap_Inr[OF b] and ec = emap_Inr[OF c]
  from ea eb ec p have len: "p < length a" "p < length b" "p < length c" by simp_all
  have cp: "coords_of_corner g' ! p = corner_of_patch (radius g) (a ! p) (b ! p) (c ! p)"
    using len by (simp add: g')
  have n: "length (coords_of_corner g') = length (nodes_at_patch g)"
    using ea eb ec by (simp add: g')
  have eq: "coords_of_corner g' ! p =
       scale (radius g) (normalize (cross (vsub (b ! p) (a ! p)) (vsub (c ! p) (a ! p))))"
    by (simp add: cp corner_of_patch_scale)
  have norm: "cross (vsub (b ! p) (a ! p)) (vsub (c ! p) (a ! p)) \<noteq> (0, 0, 0) \<and> 0 \<le> radius g \<longrightarrow>
      veclen (coords_of_corner g' ! p) = radius g"
    unfolding eq by (auto intro: veclen_scale_normalize)
  from ea eb ec p n eq norm show ?thesis by blast
qed

theorem corner_on_sphere_witness:
  "set_coords_of_corner pillow_patches = Inr (projr (set_coords_of_corner pillow_patches)) \<and>
   (0::nat) < length (nodes_at_patch pillow_patches) \<and>
   coords_of_corner (projr (set_coords_of_corner pillow_patches)) ! 0 = (0, 0, 1) \<and>
   veclen (coords_of_corner (projr (set_coords_of_corner pillow_patches)) ! 0) = radius pillow_patches"
proof -
  have ev: "set_coords_of_corner pillow_patches =
      Inr (pillow_patches\<lparr>coords_of_corner := [(0, 0, 1), (0, 0, - 1)]\<rparr>)"
    by (simp add: pillow_patches_def pillow_points_def set_coords_of_corner_def setup_nodes_def
        new_graph_def corner_of_patch_def cross_def vsub_def veclen_def sqrt4 ev)
  then have run: "set_coords_of_corner pillow_patches = Inr (projr (set_coords_of_corner pillow_patches))"
    by simp
  have p: "(0::nat) < length (nodes_at_patch pillow_patches)" by (simp add: pillow_patches_def)
  have c0: "coords_of_corner (projr (set_coords_of_corner pillow_patches)) ! 0 = (0, 0, 1)"
    by (simp add: ev)
  have r: "radius pillow_patches = 1" by (simp add: pillow_patches_def setup_nodes_def new_graph_def)
  from corner_on_sphere[OF run p] obtain p0 p1 p2 where
    e: "coords_of_corner (projr (set_coords_of_corner pillow_patches)) ! 0 =
             scale (radius pillow_patches) (normalize (cross (vsub p1 p0) (vsub p2 p0)))"
    and n: "cross (vsub p1 p0) (vsub p2 p0) \<noteq> (0, 0, 0) \<and> 0 \<le> radius pillow_patches \<longrightarrow>
              veclen (coords_of_corner (projr (set_coords_of_corner pillow_patches)) ! 0) = radius pillow_patches"
    by blast
  have "cross (vsub p1 p0) (vsub p2 p0) \<noteq> (0, 0, 0)"
  proof
    assume "cross (vsub p1 p0) (vsub p2 p0) = (0, 0, 0)"
    with e c0 show False by (simp add: scale_def normalize_def)
  qed
  with n r have "veclen (coords_of_corner (projr (set_coords_of_corner pillow_patches)) ! 0) = radius pillow_patches"
    by simp
  with run p c0 show ?thesis by blast
qed

section \<open>Cell areas\<close>

lemma np_get_zero: "np_get xs 0 = Inr x \<Longrightarrow> xs \<noteq> [] \<and> x = xs ! 0"
  by (auto simp: np_get_def np_index_def ebind_Inr split: if_splits)

lemma np_get_one: "np_get xs 1 = Inr x \<Longrightarrow> 1 < length xs \<and> x = xs ! 1"
  by (auto simp: np_get_def np_index_def ebind_Inr split: if_splits)

lemma np_get_nat: "np_get xs (int k) = Inr x \<longleftrightarrow> k < length xs \<and> x = xs ! k"
  by (auto simp: np_get_def np_index_def ebind_Inr)

lemma fold_min_less: "(m < fold min xs (x::int)) \<longleftrightarrow> m < x \<and> (\<forall>y\<in>set xs. m < y)"
  by (induction xs arbitrary: x) auto

lemma py_min_gt: "py_min row = Inr m \<Longrightarrow> (k < m \<longleftrightarrow> (\<forall>c\<in>set row. k < c))"
  by (cases row) (auto simp: fold_min_less)

text \<open>
  Claim C5. For every node (cell) whose corner row holds indices and the sentinel -1 only,
  \<open>setup_cells\<close> sets the cell's area to \<open>n\<close> times the kernel's spherical-triangle
  area of the node's position and the first two corners of its corner row, where \<open>n = 5\<close>
  if some slot of the row is -1 and \<open>n = 6\<close> otherwise.
\<close>

theorem cell_area:
  assumes run: "setup_cells K g = Inr g'" and cell: "cell < number_of_nodes g"
    and entries: "\<forall>c\<in>set (corners_at_node g ! cell). - 1 \<le> c"
  shows "\<exists>p1 p2.
           cell < length (coords_of_node g) \<and> cell < length (corners_at_node g) \<and>
           1 < length (corners_at_node g ! cell) \<and>
           np_get (coords_of_corner g) (corners_at_node g ! cell ! 0) = Inr p1 \<and>
           np_get (coords_of_corner g) (corners_at_node g ! cell ! 1) = Inr p2 \<and>
           area_of_cell g' ! cell =
             (if - 1 \<in> set (corners_at_node g ! cell) then 5 else 6) *
               area_of_sphertri K (coords_of_node g ! cell) p1 p2 (radius g) \<and>
           number_of_cells g' = number_of_nodes g \<and>
           length (area_of_cell g') = number_of_nodes g"
proof -
  from run obtain areas where
    a: "emap (area_of_cell_at K g) [0..<number_of_nodes g] = Inr areas"
    and g': "g' = g\<lparr>number_of_cells := number_of_nodes g, area_of_cell := areas\<rparr>"
    unfolding setup_cells_def ebind_Inr by auto
  from emap_Inr[OF a] cell have len: "length areas = number_of_nodes g"
    and one: "area_of_cell_at K g cell = Inr (areas ! cell)" by auto
  let ?row = "corners_at_node g ! cell"
  from one obtain p0 row i1 p1 i2 p2 m where
    p0: "np_get (coords_of_node g) (int cell) = Inr p0"
    and row: "np_get (corners_at_node g) (int cell) = Inr row"
    and i1: "np_get row 0 = Inr i1" and p1: "np_get (coords_of_corner g) i1 = Inr p1"
    and i2: "np_get row 1 = Inr i2" and p2: "np_get (coords_of_corner g) i2 = Inr p2"
    and m: "py_min row = Inr m"
    and area: "areas ! cell = real_of_int (5 + (if - 1 < m then 1 else 0)) * area_of_sphertri K p0 p1 p2 (radius g)"
    unfolding area_of_cell_at_def Let_def ebind_Inr by auto
  from p0 have c1: "cell < length (coords_of_node g)" and p0': "p0 = coords_of_node g ! cell"
    by (simp_all add: np_get_nat)
  from row have c2: "cell < length (corners_at_node g)" and row': "row = ?row"
    by (simp_all add: np_get_nat)
  from np_get_zero[OF i1] np_get_one[OF i2]
  have l: "1 < length row" and i1': "i1 = row ! 0" and i2': "i2 = row ! 1"
    by simp_all
  have "- 1 < m \<longleftrightarrow> - 1 \<notin> set row"
  proof -
    have "(- 1 < m) = (\<forall>c\<in>set row. - 1 < c)" by (rule py_min_gt[OF m])
    also have "\<dots> \<longleftrightarrow> - 1 \<notin> set row"
    proof
      assume "\<forall>c\<in>set row. - 1 < c"
      then show "- 1 \<notin> set row" by auto
    next
      assume n: "- 1 \<notin> set row"
      show "\<forall>c\<in>set row. - 1 < c"
      proof
        fix c assume c: "c \<in> set row"
        with entries have "- 1 \<le> c" by (simp add: row')
        moreover from c n have "c \<noteq> - 1" by auto
        ultimately show "- 1 < c" by simp
      qed
    qed
    finally show ?thesis .
  qed
  then have n: "real_of_int (5 + (if - 1 < m then 1 else 0)) = (if - 1 \<in> set row then 5 else 6)"
    by simp
  have "area_of_cell g' ! cell = (if - 1 \<in> set ?row then 5 else 6) *
               area_of_sphertri K (coords_of_node g ! cell) p1 p2 (radius g)"
    using area n by (simp add: g' row' p0')
  moreover have "number_of_cells g' = number_of_nodes g" "length (area_of_cell g') = number_of_nodes g"
    by (simp_all add: g' len)
  moreover from l have "1 < length ?row" by (simp add: row')
  moreover from p1 have "np_get (coords_of_corner g) (?row ! 0) = Inr p1" by (simp add: i1' row')
  moreover from p2 have "np_get (coords_of_corner g) (?row ! 1) = Inr p2" by (simp add: i2' row')
  ultimately show ?thesis using c1 c2 by blast
qed

theorem cell_area_witness:
  "setup_cells sample_kernel pillow_cornered = Inr (projr (setup_cells sample_kernel pillow_cornered)) \<and>
   (0::nat) < number_of_nodes pillow_cornered \<and>
   corners_at_node pillow_cornered ! 0 = [0, 1, - 1, - 1, - 1, - 1] \<and>
   area_of_cell (projr (setup_cells sample_kernel pillow_cornered)) ! 0 =
     5 * area_of_sphertri sample_kernel (1, 0, 0) (0, 0, 1) (0, 0, - 1) 1"
proof -
  have "\<not> isl (setup_cells sample_kernel pillow_cornered)"
    by (simp add: setup_cells_def area_of_cell_at_def pillow_cornered_def pillow_points_def
        setup_nodes_def new_graph_def ev)
  then have run: "setup_cells sample_kernel pillow_cornered = Inr (projr (setup_cells sample_kernel pillow_cornered))"
    by simp
  have c: "(0::nat) < number_of_nodes pillow_cornered"
    by (simp add: pillow_cornered_def pillow_points_def setup_nodes_def new_graph_def)
  have e: "\<forall>c\<in>set (corners_at_node pillow_cornered ! 0). - 1 \<le> c"
    by (simp add: pillow_cornered_def)
  from cell_area[OF run c e] obtain p1 p2 where
    "np_get (coords_of_corner pillow_cornered) (corners_at_node pillow_cornered ! 0 ! 0) = Inr p1"
    "np_get (coords_of_corner pillow_cornered) (corners_at_node pillow_cornered ! 0 ! 1) = Inr p2"
    "area_of_cell (projr (setup_cells sample_kernel pillow_cornered)) ! 0 =
       (if - 1 \<in> set (corners_at_node pillow_cornered ! 0) then 5 else 6) *
         area_of_sphertri sample_kernel (coords_of_node pillow_cornered ! 0) p1 p2 (radius pillow_cornered)"
    by blast
  then have "area_of_cell (projr (setup_cells sample_kernel pillow_cornered)) ! 0 =
     5 * area_of_sphertri sample_kernel (1, 0, 0) (0, 0, 1) (0, 0, - 1) 1"
    by (auto simp: pillow_cornered_def pillow_points_def setup_nodes_def new_graph_def ev)
  moreover have "corners_at_node pillow_cornered ! 0 = [0, 1, - 1, - 1, - 1, - 1]"
    by (simp add: pillow_cornered_def)
  ultimately show ?thesis using run c by blast
qed

section \<open>Faces\<close>

lemma entry_of_None: "entry_of xs = None \<longleftrightarrow> xs = []"
  by (cases xs rule: entry_of.cases) simp_all

lemma entry_of_One: "entry_of xs = Some (One p) \<longleftrightarrow> xs = [p]"
  by (cases xs rule: entry_of.cases) simp_all

lemma entry_of_Two:
  "length xs \<le> 2 \<Longrightarrow> entry_of xs = Some (Two a b) \<longleftrightarrow> (\<exists>x y. xs = [x, y] \<and> a = min y x \<and> b = max y x)"
  by (cases xs rule: entry_of.cases) auto

lemma patches_on_snoc:
  "patches_on (V @ [(k0, i)]) k = (if k = k0 then patches_on V k @ [i] else patches_on V k)"
  by (simp add: patches_on_def)

lemma register_edge_dict:
  assumes inv: "dict_of V d" and run: "register_edge nap i j d = Inr d'"
  shows "dict_of (V @ [(edge_key_at nap i j, i)]) d'"
proof -
  from run obtain n1 n2 where n1: "np_get2 nap i (j - 1) = Inr n1" and n2: "np_get2 nap i j = Inr n2"
    and upd: "(case d (min n1 n2, max n1 n2) of
        None \<Rightarrow> Inr (d((min n1 n2, max n1 n2) \<mapsto> One i))
      | Some (One patch1) \<Rightarrow> Inr (d((min n1 n2, max n1 n2) \<mapsto> Two (min i patch1) (max i patch1)))
      | Some (Two a b) \<Rightarrow> Inl TypeError) = Inr d'"
    unfolding register_edge_def Let_def ebind_Inr by auto
  define k0 where "k0 = (min n1 n2, max n1 n2)"
  have key: "edge_key_at nap i j = k0" by (simp add: edge_key_at_def n1 n2 k0_def)
  from inv have len: "length (patches_on V k) \<le> 2" and dk: "d k = entry_of (patches_on V k)" for k
    unfolding dict_of_def by blast+
  show ?thesis
  proof (cases "d k0")
    case None
    with upd have d': "d' = d(k0 \<mapsto> One i)" by (simp add: k0_def)
    from None dk[of k0] have e: "patches_on V k0 = []" by (simp add: entry_of_None)
    show ?thesis unfolding dict_of_def key
      using len dk by (auto simp: patches_on_snoc d' e)
  next
    case (Some v)
    show ?thesis
    proof (cases v)
      case (One p)
      with Some upd have d': "d' = d(k0 \<mapsto> Two (min i p) (max i p))" by (simp add: k0_def)
      from Some One dk[of k0] have e: "patches_on V k0 = [p]" by (simp add: entry_of_One)
      show ?thesis unfolding dict_of_def key
        using len dk by (auto simp: patches_on_snoc d' e)
    next
      case (Two a b)
      with Some upd show ?thesis by (simp add: k0_def)
    qed
  qed
qed

lemma pair_loop_dict:
  "dict_of V d \<Longrightarrow> pair_loop nap ps d = Inr d' \<Longrightarrow> dict_of (V @ edge_visits nap ps) d'"
proof (induction ps arbitrary: V d)
  case Nil
  then show ?case by (simp add: edge_visits_def)
next
  case (Cons i ps)
  from Cons.prems(2) obtain d0 d1 d2 where
    0: "register_edge nap i 0 d = Inr d0" and 1: "register_edge nap i 1 d0 = Inr d1"
    and 2: "register_edge nap i 2 d1 = Inr d2" and rest: "pair_loop nap ps d2 = Inr d'"
    by (auto simp: ebind_Inr)
  note a = register_edge_dict[OF Cons.prems(1) 0]
  note b = register_edge_dict[OF a 1]
  note c = register_edge_dict[OF b 2]
  from Cons.IH[OF c rest] show ?case by (simp add: edge_visits_def)
qed

lemma dict_of_empty: "dict_of [] Map.empty"
  by (simp add: dict_of_def patches_on_def)

lemma setup_faces_Inr:
  assumes "setup_faces K g = Inr g'"
  obtains d fs where
    "pair_loop (nodes_at_patch g) (map int [0..<number_of_patches g]) Map.empty = Inr d"
    "emap (face_of_link K g d) [0..<number_of_links g] = Inr fs"
    "g' = g\<lparr>number_of_faces := number_of_links g, corners_at_face := map fst fs,
            length_of_face := map snd fs\<rparr>"
  using assms unfolding setup_faces_def ebind_Inr by blast

lemma face_of_link_Inr:
  assumes "face_of_link K g d face = Inr (cs, len)"
  shows "\<exists>ln1 ln2 lo hi c0 c1.
           face < length (nodes_at_link g) \<and>
           py_min (nodes_at_link g ! face) = Inr ln1 \<and> py_max (nodes_at_link g ! face) = Inr ln2 \<and>
           d (ln1, ln2) = Some (Two lo hi) \<and> cs = [lo, hi] \<and>
           np_get (coords_of_corner g) lo = Inr c0 \<and> np_get (coords_of_corner g) hi = Inr c1 \<and>
           len = radius g * arc_length K c0 c1 (radius g)"
proof -
  from assms obtain row ln1 ln2 where
    row: "np_get (nodes_at_link g) (int face) = Inr row"
    and ln1: "py_min row = Inr ln1" and ln2: "py_max row = Inr ln2"
    and rest: "(case d (ln1, ln2) of
        None \<Rightarrow> Inl KeyError
      | Some (One p) \<Rightarrow> Inl TypeError
      | Some (Two cnr0 cnr1) \<Rightarrow>
          ebind (np_get (coords_of_corner g) cnr0) (\<lambda>c0.
          ebind (np_get (coords_of_corner g) cnr1) (\<lambda>c1.
          Inr ([cnr0, cnr1], radius g * arc_length K c0 c1 (radius g))))) = Inr (cs, len)"
    unfolding face_of_link_def ebind_Inr by auto
  from row have f: "face < length (nodes_at_link g)" and row': "row = nodes_at_link g ! face"
    by (simp_all add: np_get_nat)
  from rest obtain lo hi where two: "d (ln1, ln2) = Some (Two lo hi)"
    and r2: "ebind (np_get (coords_of_corner g) lo) (\<lambda>c0.
          ebind (np_get (coords_of_corner g) hi) (\<lambda>c1.
          Inr ([lo, hi], radius g * arc_length K c0 c1 (radius g)))) = Inr (cs, len)"
    by (auto split: option.splits patch_entry.splits)
  from r2 obtain c0 c1 where "np_get (coords_of_corner g) lo = Inr c0"
    "np_get (coords_of_corner g) hi = Inr c1" "cs = [lo, hi]"
    "len = radius g * arc_length K c0 c1 (radius g)"
    unfolding ebind_Inr by auto
  with f ln1 ln2 two show ?thesis unfolding row' by blast
qed

lemma setup_faces_face:
  assumes run: "setup_faces K g = Inr g'" and face: "face < number_of_links g"
  shows "\<exists>ln1 ln2 a b c0 c1.
           face < length (nodes_at_link g) \<and>
           py_min (nodes_at_link g ! face) = Inr ln1 \<and> py_max (nodes_at_link g ! face) = Inr ln2 \<and>
           adjacent_patches g (ln1, ln2) = [a, b] \<and>
           corners_at_face g' ! face = [min b a, max b a] \<and>
           np_get (coords_of_corner g) (min b a) = Inr c0 \<and>
           np_get (coords_of_corner g) (max b a) = Inr c1 \<and>
           length_of_face g' ! face = radius g * arc_length K c0 c1 (radius g)"
proof -
  from run obtain d fs where
    d: "pair_loop (nodes_at_patch g) (map int [0..<number_of_patches g]) Map.empty = Inr d"
    and fs: "emap (face_of_link K g d) [0..<number_of_links g] = Inr fs"
    and g': "g' = g\<lparr>number_of_faces := number_of_links g, corners_at_face := map fst fs,
            length_of_face := map snd fs\<rparr>"
    by (rule setup_faces_Inr)
  from pair_loop_dict[OF dict_of_empty d]
  have inv: "dict_of (edge_visits (nodes_at_patch g) (map int [0..<number_of_patches g])) d" by simp
  from emap_Inr[OF fs] face have len: "length fs = number_of_links g"
    and one: "face_of_link K g d face = Inr (fs ! face)" by auto
  then have "face_of_link K g d face = Inr (fst (fs ! face), snd (fs ! face))" by simp
  from face_of_link_Inr[OF this] obtain ln1 ln2 lo hi c0 c1 where
    f: "face < length (nodes_at_link g)"
    and mn: "py_min (nodes_at_link g ! face) = Inr ln1" and mx: "py_max (nodes_at_link g ! face) = Inr ln2"
    and two: "d (ln1, ln2) = Some (Two lo hi)" and cs: "fst (fs ! face) = [lo, hi]"
    and c0: "np_get (coords_of_corner g) lo = Inr c0" and c1: "np_get (coords_of_corner g) hi = Inr c1"
    and l: "snd (fs ! face) = radius g * arc_length K c0 c1 (radius g)"
    by blast
  from inv have le2: "length (adjacent_patches g (ln1, ln2)) \<le> 2"
    and dk: "d (ln1, ln2) = entry_of (adjacent_patches g (ln1, ln2))"
    unfolding dict_of_def adjacent_patches_def by blast+
  from two dk entry_of_Two[OF le2, of lo hi] obtain a b where
    ab: "adjacent_patches g (ln1, ln2) = [a, b]" and lo: "lo = min b a" and hi: "hi = max b a"
    by auto
  have "corners_at_face g' ! face = [min b a, max b a]"
    using face len cs by (simp add: g' lo hi)
  moreover have "length_of_face g' ! face = radius g * arc_length K c0 c1 (radius g)"
    using face len l by (simp add: g')
  ultimately show ?thesis using f mn mx ab c0 c1 unfolding lo hi by blast
qed

lemma upt_numeral: "[i..<numeral k] = (if i < numeral k then i # [Suc i..<numeral k] else [])"
  by (simp add: upt_rec)

lemma pillow_linked_run:
  "setup_links sample_kernel pillow_faces (setup_nodes pillow_points (new_graph 1)) = Inr pillow_linked"
  by (simp add: pillow_linked_def pillow_faces_def pillow_points_def
     setup_links_def setup_nodes_def new_graph_def add_link_def link_key_def
     link_body_def enter_link_end_def sample_kernel_def ev)

lemma pillow_meshed_run:
  "setup_patches_and_corners sample_kernel pillow_faces pillow_linked = Inr pillow_meshed"
  by (simp add: pillow_meshed_def pillow_linked_def pillow_faces_def pillow_points_def
     setup_nodes_def new_graph_def
     setup_patches_and_corners_def enter_corner_def set_coords_of_corner_def
     corner_of_patch_def cross_def vsub_def veclen_def sqrt4
     sort_corners_ccw_def sort_node_def phi_of_node_def theta_of_node_def
     setup_node_spherical_coords_def corner_angle_def arctan2_def
     sample_kernel_def ev)

lemma flat_linked_run:
  "setup_links sample_kernel flat_faces (setup_nodes flat_points (new_graph 1)) = Inr flat_linked"
  by (simp add: flat_linked_def flat_faces_def flat_points_def
     setup_links_def setup_nodes_def new_graph_def add_link_def link_key_def
     link_body_def enter_link_end_def sample_kernel_def ev)

lemma Suc4: "Suc (Suc (Suc (Suc 0))) = 4"
  by simp

lemma flat_cornered_run:
  "setup_patches_and_corners sample_kernel flat_faces flat_linked =
     sort_corners_ccw sample_kernel flat_cornered"
  by (simp add: flat_cornered_def flat_linked_def flat_faces_def flat_points_def
     setup_nodes_def new_graph_def
     setup_patches_and_corners_def enter_corner_def set_coords_of_corner_def
     corner_of_patch_def cross_def vsub_def veclen_def sqrt4 Suc4 ev)

lemma flat_meshed_run: "sort_corners_ccw sample_kernel flat_cornered = Inr flat_meshed"
  by (simp add: flat_meshed_def flat_cornered_def flat_linked_def flat_points_def
     setup_nodes_def new_graph_def
     sort_corners_ccw_def sort_node_def phi_of_node_def theta_of_node_def
     setup_node_spherical_coords_def corner_angle_def arctan2_def
     sample_kernel_def ev upt_numeral)

lemma patch_keys_row:
  assumes "p < length nap" and "length (nap ! p) = 3"
  shows "patch_keys nap p =
     [(min (nap ! p ! 2) (nap ! p ! 0), max (nap ! p ! 2) (nap ! p ! 0)),
      (min (nap ! p ! 0) (nap ! p ! 1), max (nap ! p ! 0) (nap ! p ! 1)),
      (min (nap ! p ! 1) (nap ! p ! 2), max (nap ! p ! 1) (nap ! p ! 2))]"
proof -
  from assms(2) have ne: "nap ! p \<noteq> []" by auto
  show ?thesis using assms ne
    by (simp add: patch_keys_def edge_key_at_def np_get2_def np_get_def np_index_def ebind_def)
qed

lemma patches_on_visits:
  "\<forall>p\<in>set ps. distinct (patch_keys nap p) \<Longrightarrow>
   patches_on (edge_visits nap (map int ps)) k =
     map int (filter (\<lambda>p. k \<in> set (patch_keys nap p)) ps)"
proof (induction ps)
  case Nil
  then show ?case by (simp add: edge_visits_def patches_on_def)
next
  case (Cons p ps)
  then have IH: "patches_on (edge_visits nap (map int ps)) k =
     map int (filter (\<lambda>p. k \<in> set (patch_keys nap p)) ps)" by simp
  have split: "patches_on (edge_visits nap (map int (p # ps))) k =
      patches_on [(edge_key_at nap (int p) 0, int p), (edge_key_at nap (int p) 1, int p),
                  (edge_key_at nap (int p) 2, int p)] k @
      patches_on (edge_visits nap (map int ps)) k"
    by (simp add: edge_visits_def patches_on_def)
  from Cons.prems have d: "distinct (patch_keys nap p)" by simp
  have one: "patches_on [(edge_key_at nap (int p) 0, int p), (edge_key_at nap (int p) 1, int p),
                  (edge_key_at nap (int p) 2, int p)] k =
      (if k \<in> set (patch_keys nap p) then [int p] else [])"
    using d by (auto simp: patches_on_def patch_keys_def)
  show ?case unfolding split one IH by simp
qed

lemma filter_upt_pair:
  assumes "map int (filter P [0..<n]) = [a, b]"
  shows "a < b \<and> 0 \<le> a \<and> {p. p < n \<and> P p} = {nat a, nat b}"
proof -
  from assms obtain x y where xy: "filter P [0..<n] = [x, y]" and a: "a = int x" and b: "b = int y"
    by (auto simp: map_eq_Cons_conv)
  have "sorted_wrt (<) (filter P [0..<n])" by (simp add: sorted_wrt_filter)
  with xy have lt: "x < y" by simp
  have "set (filter P [0..<n]) = {x, y}" by (simp add: xy)
  then have "{p. p < n \<and> P p} = {x, y}" by auto
  with lt a b show ?thesis by simp
qed

lemma triangle_keys_distinct:
  assumes "distinct [x, y, z :: int]"
  shows "distinct [(min z x, max z x), (min x y, max x y), (min y z, max y z)]"
  using assms by (auto simp: min_def max_def split: if_splits)

lemma triangle_key_member:
  assumes "distinct [x, y, z :: int]"
  shows "(min h t, max h t) \<in> set [(min z x, max z x), (min x y, max x y), (min y z, max y z)]
     \<longleftrightarrow> t \<noteq> h \<and> t \<in> {x, y, z} \<and> h \<in> {x, y, z}"
  using assms by (auto simp: min_def max_def split: if_splits)

lemma list3: "length xs = 3 \<Longrightarrow> xs = [xs ! 0, xs ! 1, xs ! 2]"
  by (cases xs; cases "tl xs"; cases "tl (tl xs)") auto

lemma list2: "length xs = 2 \<Longrightarrow> xs = [xs ! 0, xs ! 1]"
  by (cases xs; cases "tl xs") auto

lemma pair_loop_in_range:
  "pair_loop nap ps d = Inr d' \<Longrightarrow> i \<in> set ps \<Longrightarrow> \<exists>j. np_index (length nap) i = Inr j"
proof (induction ps arbitrary: d)
  case Nil
  then show ?case by simp
next
  case (Cons p ps)
  from Cons.prems(1) obtain d0 d1 d2 where
    0: "register_edge nap p 0 d = Inr d0" and rest: "pair_loop nap ps d2 = Inr d'"
    by (auto simp: ebind_Inr)
  show ?case
  proof (cases "i = p")
    case True
    from 0 show ?thesis unfolding True register_edge_def np_get2_def np_get_def ebind_Inr Let_def
      by auto
  next
    case False
    with Cons.prems(2) have "i \<in> set ps" by simp
    from Cons.IH[OF rest this] show ?thesis .
  qed
qed

text \<open>
  Claim C2, amended. Whenever \<open>setup_faces\<close> returns (the mesh is closed: every link lies
  on two patches), for a link with two end nodes and patches that are triangles of three
  different nodes: exactly two patches \<open>lo < hi\<close> contain both end nodes of the link,
  \<open>corners_at_face\<close> of the link's face is \<open>(lo, hi)\<close>, and \<open>length_of_face\<close> is the radius
  times the kernel's arc length between the coordinates of the two corners. Nothing makes
  that length positive.
\<close>

theorem faces_join_adjacent_patches:
  assumes run: "setup_faces K g = Inr g'" and face: "face < number_of_links g"
    and link: "length (nodes_at_link g ! face) = 2"
    and tri: "\<forall>p<number_of_patches g.
                length (nodes_at_patch g ! p) = 3 \<and> distinct (nodes_at_patch g ! p)"
  shows "\<exists>lo hi c0 c1.
           lo < hi \<and> hi < number_of_patches g \<and>
           {p. p < number_of_patches g \<and>
               set (nodes_at_link g ! face) \<subseteq> set (nodes_at_patch g ! p)} = {lo, hi} \<and>
           corners_at_face g' ! face = [int lo, int hi] \<and>
           np_get (coords_of_corner g) (int lo) = Inr c0 \<and>
           np_get (coords_of_corner g) (int hi) = Inr c1 \<and>
           length_of_face g' ! face = radius g * arc_length K c0 c1 (radius g) \<and>
           number_of_faces g' = number_of_links g"
proof -
  let ?nap = "nodes_at_patch g"
  let ?np = "number_of_patches g"
  let ?row = "nodes_at_link g ! face"
  define t where "t = ?row ! 0"
  define h where "h = ?row ! 1"
  have row: "?row = [t, h]" unfolding t_def h_def by (rule list2[OF link])
  from setup_faces_face[OF run face] obtain ln1 ln2 a b c0 c1 where
    mn: "py_min ?row = Inr ln1" and mx: "py_max ?row = Inr ln2"
    and ab: "adjacent_patches g (ln1, ln2) = [a, b]"
    and caf: "corners_at_face g' ! face = [min b a, max b a]"
    and c0: "np_get (coords_of_corner g) (min b a) = Inr c0"
    and c1: "np_get (coords_of_corner g) (max b a) = Inr c1"
    and lof: "length_of_face g' ! face = radius g * arc_length K c0 c1 (radius g)"
    by blast
  from mn mx have k: "ln1 = min h t" "ln2 = max h t" by (simp_all add: row)
  from run obtain d where
    d: "pair_loop ?nap (map int [0..<?np]) Map.empty = Inr d"
    and nf: "number_of_faces g' = number_of_links g"
    by (auto elim: setup_faces_Inr)
  have inr: "p < length ?nap" if "p < ?np" for p
  proof -
    from that have "int p \<in> set (map int [0..<?np])" by simp
    from pair_loop_in_range[OF d this] show ?thesis by (simp add: np_index_int)
  qed
  have keys: "patch_keys ?nap p =
     [(min (?nap ! p ! 2) (?nap ! p ! 0), max (?nap ! p ! 2) (?nap ! p ! 0)),
      (min (?nap ! p ! 0) (?nap ! p ! 1), max (?nap ! p ! 0) (?nap ! p ! 1)),
      (min (?nap ! p ! 1) (?nap ! p ! 2), max (?nap ! p ! 1) (?nap ! p ! 2))]"
    if "p < ?np" for p
    using patch_keys_row[OF inr[OF that]] tri that by simp
  have dist3: "distinct [?nap ! p ! 0, ?nap ! p ! 1, ?nap ! p ! 2]" if "p < ?np" for p
  proof -
    from tri that have l: "length (?nap ! p) = 3" and dd: "distinct (?nap ! p)" by simp_all
    from list3[OF l] dd show ?thesis by metis
  qed
  have set3: "set (?nap ! p) = {?nap ! p ! 0, ?nap ! p ! 1, ?nap ! p ! 2}" if "p < ?np" for p
  proof -
    from tri that have l: "length (?nap ! p) = 3" by simp
    have "set (?nap ! p) = set [?nap ! p ! 0, ?nap ! p ! 1, ?nap ! p ! 2]"
      using list3[OF l] by metis
    then show ?thesis by simp
  qed
  have dk: "\<forall>p\<in>set [0..<?np]. distinct (patch_keys ?nap p)"
  proof
    fix p assume "p \<in> set [0..<?np]"
    then have p: "p < ?np" by simp
    show "distinct (patch_keys ?nap p)"
      unfolding keys[OF p] by (rule triangle_keys_distinct[OF dist3[OF p]])
  qed
  have mem: "(ln1, ln2) \<in> set (patch_keys ?nap p) \<longleftrightarrow> t \<noteq> h \<and> set ?row \<subseteq> set (?nap ! p)"
    if p: "p < ?np" for p
    unfolding keys[OF p] k triangle_key_member[OF dist3[OF p]] set3[OF p] row by auto
  have "adjacent_patches g (ln1, ln2) =
      map int (filter (\<lambda>p. (ln1, ln2) \<in> set (patch_keys ?nap p)) [0..<?np])"
    unfolding adjacent_patches_def by (rule patches_on_visits[OF dk])
  with ab have "map int (filter (\<lambda>p. (ln1, ln2) \<in> set (patch_keys ?nap p)) [0..<?np]) = [a, b]"
    by simp
  from filter_upt_pair[OF this] have lt: "a < b" and a0: "0 \<le> a"
    and S: "{p. p < ?np \<and> (ln1, ln2) \<in> set (patch_keys ?nap p)} = {nat a, nat b}" by simp_all
  from S have "nat a < ?np \<and> (ln1, ln2) \<in> set (patch_keys ?nap (nat a))" by blast
  then have th: "t \<noteq> h" using mem by blast
  from S have bn: "nat b < ?np" by blast
  have S': "{p. p < ?np \<and> set ?row \<subseteq> set (?nap ! p)} = {nat a, nat b}"
    using S mem th by blast
  have mm: "min b a = int (nat a)" "max b a = int (nat b)" using lt a0 by simp_all
  have "nat a < nat b" using lt a0 by simp
  with bn S' caf c0 c1 lof nf show ?thesis unfolding mm by blast
qed

theorem faces_join_adjacent_patches_witness:
  "setup_faces sample_kernel pillow_meshed = Inr (projr (setup_faces sample_kernel pillow_meshed)) \<and>
   (0::nat) < number_of_links pillow_meshed \<and>
   length (nodes_at_link pillow_meshed ! 0) = 2 \<and>
   number_of_patches pillow_meshed = 2 \<and>
   nodes_at_patch pillow_meshed = [[0, 1, 2], [0, 2, 1]] \<and>
   corners_at_face (projr (setup_faces sample_kernel pillow_meshed)) ! 0 = [0, 1] \<and>
   length_of_face (projr (setup_faces sample_kernel pillow_meshed)) ! 0 = 4"
proof -
  have ev1: "setup_faces sample_kernel pillow_meshed =
      Inr (pillow_meshed\<lparr>number_of_faces := 3, corners_at_face := [[0, 1], [0, 1], [0, 1]],
             length_of_face := [4, 4, 4]\<rparr>)"
    by (simp add: setup_faces_def register_edge_def face_of_link_def pillow_meshed_def
        pillow_linked_def pillow_points_def setup_nodes_def new_graph_def sample_kernel_def ev
        upt_numeral)
  then have run: "setup_faces sample_kernel pillow_meshed = Inr (projr (setup_faces sample_kernel pillow_meshed))"
    by simp
  have f: "(0::nat) < number_of_links pillow_meshed"
    by (simp add: pillow_meshed_def pillow_linked_def)
  have l: "length (nodes_at_link pillow_meshed ! 0) = 2"
    by (simp add: pillow_meshed_def pillow_linked_def)
  have t: "\<forall>p<number_of_patches pillow_meshed.
      length (nodes_at_patch pillow_meshed ! p) = 3 \<and> distinct (nodes_at_patch pillow_meshed ! p)"
  proof (intro allI impI)
    fix p assume "p < number_of_patches pillow_meshed"
    then have "p = 0 \<or> p = 1" by (auto simp: pillow_meshed_def)
    then show "length (nodes_at_patch pillow_meshed ! p) = 3 \<and> distinct (nodes_at_patch pillow_meshed ! p)"
      by (auto simp: pillow_meshed_def)
  qed
  have r: "radius pillow_meshed = 1"
    by (simp add: pillow_meshed_def pillow_linked_def setup_nodes_def new_graph_def)
  have cc: "coords_of_corner pillow_meshed = [(0, 0, 1), (0, 0, - 1)]"
    by (simp add: pillow_meshed_def)
  from faces_join_adjacent_patches[OF run f l t] obtain lo hi c0 c1 where
    lh: "lo < hi" "hi < number_of_patches pillow_meshed"
    and c: "np_get (coords_of_corner pillow_meshed) (int lo) = Inr c0"
       "np_get (coords_of_corner pillow_meshed) (int hi) = Inr c1"
    and caf: "corners_at_face (projr (setup_faces sample_kernel pillow_meshed)) ! 0 = [int lo, int hi]"
    and lof: "length_of_face (projr (setup_faces sample_kernel pillow_meshed)) ! 0 =
        radius pillow_meshed * arc_length sample_kernel c0 c1 (radius pillow_meshed)"
    by blast
  from lh have "hi = 1" "lo = 0" by (simp_all add: pillow_meshed_def)
  with c have "c0 = (0, 0, 1)" "c1 = (0, 0, - 1)"
    by (simp_all add: cc np_get_def np_index_def ebind_def)
  with lof have "length_of_face (projr (setup_faces sample_kernel pillow_meshed)) ! 0 = 4"
    by (simp add: r sample_kernel_def)
  moreover from caf \<open>hi = 1\<close> \<open>lo = 0\<close>
  have "corners_at_face (projr (setup_faces sample_kernel pillow_meshed)) ! 0 = [0, 1]" by simp
  moreover have "number_of_patches pillow_meshed = 2"
    "nodes_at_patch pillow_meshed = [[0, 1, 2], [0, 2, 1]]"
    by (simp_all add: pillow_meshed_def)
  ultimately show ?thesis using run f l by blast
qed

lemma flat_faced_run:
  "setup_faces sample_kernel flat_meshed =
     Inr (flat_meshed\<lparr>number_of_faces := 6,
            corners_at_face := [[0, 2], [0, 3], [0, 1], [1, 3], [1, 2], [2, 3]],
            length_of_face := [4, 4, 0, 4, 4, 0]\<rparr>)"
  by (simp add: setup_faces_def register_edge_def face_of_link_def flat_meshed_def
      flat_cornered_def flat_linked_def flat_points_def setup_nodes_def new_graph_def
      sample_kernel_def ev upt_numeral)

lemma flat_celled_run:
  "setup_cells sample_kernel
     (flat_meshed\<lparr>number_of_faces := 6,
        corners_at_face := [[0, 2], [0, 3], [0, 1], [1, 3], [1, 2], [2, 3]],
        length_of_face := [4, 4, 0, 4, 4, 0]\<rparr>) =
   Inr (flat_meshed\<lparr>number_of_faces := 6,
          corners_at_face := [[0, 2], [0, 3], [0, 1], [1, 3], [1, 2], [2, 3]],
          length_of_face := [4, 4, 0, 4, 4, 0],
          number_of_cells := 4, area_of_cell := [5 / 2, 5 / 2, 5 / 2, 5 / 2]\<rparr>)"
  by (simp add: setup_cells_def area_of_cell_at_def flat_meshed_def
      flat_cornered_def flat_linked_def flat_points_def setup_nodes_def new_graph_def
      sample_kernel_def ev upt_numeral Suc4)

lemma flat_run:
  "construct sample_kernel 1 flat_points flat_faces =
   Inr (flat_meshed\<lparr>number_of_faces := 6,
          corners_at_face := [[0, 2], [0, 3], [0, 1], [1, 3], [1, 2], [2, 3]],
          length_of_face := [4, 4, 0, 4, 4, 0],
          number_of_cells := 4, area_of_cell := [5 / 2, 5 / 2, 5 / 2, 5 / 2]\<rparr>)"
  unfolding construct_def flat_linked_run
  by (simp add: ebind_def flat_cornered_run flat_meshed_run flat_faced_run flat_celled_run)

text \<open>
  The claim as stated fails in its last part. On the closed flat mesh the link between the
  nodes 2 and 0 lies on the patches 0 and 1; they are in one plane and face the same way,
  so their corners coincide, and the face between the two corners has length 0.
\<close>

theorem coplanar_patches_counterexample:
  "construct sample_kernel 1 flat_points flat_faces =
     Inr (projr (construct sample_kernel 1 flat_points flat_faces)) \<and>
   radius (projr (construct sample_kernel 1 flat_points flat_faces)) = 1 \<and>
   nodes_at_link (projr (construct sample_kernel 1 flat_points flat_faces)) ! 2 = [2, 0] \<and>
   nodes_at_patch (projr (construct sample_kernel 1 flat_points flat_faces)) =
     [[0, 1, 2], [0, 2, 3], [1, 0, 3], [1, 3, 2]] \<and>
   coords_of_corner (projr (construct sample_kernel 1 flat_points flat_faces)) =
     [(0, 0, 1), (0, 0, 1), (0, 0, - 1), (0, 0, - 1)] \<and>
   corners_at_face (projr (construct sample_kernel 1 flat_points flat_faces)) ! 2 = [0, 1] \<and>
   length_of_face (projr (construct sample_kernel 1 flat_points flat_faces)) ! 2 = 0 \<and>
   \<not> 0 < length_of_face (projr (construct sample_kernel 1 flat_points flat_faces)) ! 2"
  unfolding flat_run
  by (simp add: flat_meshed_def flat_cornered_def flat_linked_def setup_nodes_def new_graph_def)

section \<open>The angular sort of the corners\<close>


























text \<open>
  The description of \<open>np.argsort\<close> is met by functions that differ on equal entries:
  the insertion sort of the sample kernel keeps their order, \<open>descending_ties\<close> reverses
  it.
\<close>

lemma descending_ties_ok: "argsort_ok (sample_kernel\<lparr>argsort := descending_ties\<rparr>)"
proof -
  have "sorted (map (\<lambda>i. xs ! i) (descending_ties xs))" for xs :: "real list"
  proof -
    define S where "S = sort_key (\<lambda>i. - (xs ! i)) [0..<length xs]"
    have "sorted (map (\<lambda>i. - (xs ! i)) S)" unfolding S_def by simp
    then have "sorted_wrt (\<lambda>i j. xs ! j \<le> xs ! i) S"
      by (simp add: sorted_wrt_map)
    then show ?thesis
      unfolding descending_ties_def S_def[symmetric]
      by (simp add: rev_map sorted_wrt_rev sorted_wrt_map)
  qed
  then show ?thesis
    by (auto simp: argsort_ok_def descending_ties_def)
qed

lemma tie_order_open:
  "argsort sample_kernel [1, 1, 0, 0] = [2, 3, 0, 1]"
  "descending_ties [1, 1, 0, 0] = [3, 2, 1, 0]"
  by (simp_all add: sample_kernel_def descending_ties_def upt_rec)




section \<open>Malformed input\<close>

lemma np_get_error: "np_get xs i = Inl e \<Longrightarrow> e = IndexError"
  by (auto simp: np_get_def ebind_Inl dest: np_index_error)

lemma np_set_error: "np_set xs i v = Inl e \<Longrightarrow> e = IndexError"
  by (auto simp: np_set_def ebind_Inl dest: np_index_error)

lemma np_set2_error: "np_set2 xss i j v = Inl e \<Longrightarrow> e = IndexError"
  by (auto simp: np_set2_def ebind_Inl dest: np_index_error np_set_error)

lemma enter_link_end_error: "enter_link_end i col node dir t = Inl e \<Longrightarrow> e = IndexError"
  unfolding enter_link_end_def ebind_Inl
  by (auto dest: np_get_error np_set_error np_set2_error)

lemma link_body_error: "link_body K r cn i link t = Inl e \<Longrightarrow> e = IndexError"
  unfolding link_body_def Let_def ebind_Inl
  by (auto dest: enter_link_end_error np_get_error np_set_error)

lemma link_loop_error: "link_loop K r cn ls i t = Inl e \<Longrightarrow> e = IndexError"
proof (induction ls arbitrary: i t)
  case Nil
  then show ?case by simp
next
  case (Cons link ls)
  from Cons.prems have "link_body K r cn i link t = Inl e \<or>
      (\<exists>t'. link_body K r cn i link t = Inr t' \<and> link_loop K r cn ls (i + 1) t' = Inl e)"
    by (simp add: ebind_Inl)
  then show ?case using Cons.IH link_body_error by blast
qed

lemma setup_links_error: "setup_links K ico_faces g = Inl e \<Longrightarrow> e = IndexError"
  unfolding setup_links_def Let_def ebind_Inl by (auto dest: link_loop_error)

lemma np_index_too_large: "int n \<le> v \<Longrightarrow> np_index n v = Inl IndexError"
  by (simp add: np_index_def)

lemma np_index_wraps: "- int n \<le> v \<Longrightarrow> v < 0 \<Longrightarrow> np_index n v = Inr (nat (int n + v))"
  by (simp add: np_index_def)

lemma face_edges:
  "(a, b, c) \<in> set fs \<Longrightarrow>
   (a, b) \<in> set (edges_of fs) \<and> (b, c) \<in> set (edges_of fs) \<and> (c, a) \<in> set (edges_of fs)"
  by (force simp: edges_of_def)

lemma setup_links_rejects:
  assumes bounded: "index_bounded ico_faces" and e: "e \<in> set (edges_of ico_faces)"
    and big: "int (number_of_nodes g) \<le> fst e"
  shows "setup_links K ico_faces g = Inl IndexError"
proof (cases "setup_links K ico_faces g")
  case (Inl err)
  with setup_links_error[OF Inl] show ?thesis by simp
next
  case (Inr g')
  let ?ls = "map snd (links g')"
  have lks: "links g' = add_faces ico_faces []" by (rule setup_links_fields(1)[OF Inr])
  from e have "edge_key e \<in> edge_key ` set (edges_of ico_faces)" by simp
  then have "edge_key e \<in> edge_key ` set ?ls" using links_keys[of ico_faces] by (simp add: lks)
  then obtain l where l: "l \<in> set ?ls" and k': "edge_key e = edge_key l" by (rule imageE)
  from k' have k: "edge_key l = edge_key e" by simp
  from l have ll: "l \<in> set (map snd (add_faces ico_faces []))" by (simp only: lks)
  from links_first_seen[OF ll] have "l \<in> set (edges_of ico_faces)"
    by (auto simp: find_Some_iff)
  from edge_key_upair[OF edges_bounded[OF bounded this] edges_bounded[OF bounded e]] k
  have "upair l = upair e" by simp
  then have "fst e = fst l \<or> fst e = snd l" by (auto simp: upair_def)
  moreover from setup_links_resolves[OF Inr l] obtain x y where
    "np_index (number_of_nodes g) (fst l) = Inr x" "np_index (number_of_nodes g) (snd l) = Inr y"
    by blast
  ultimately have "\<exists>z. np_index (number_of_nodes g) (fst e) = Inr z" by auto
  with np_index_too_large[OF big] show ?thesis by simp
qed

text \<open>
  Claim C7, amended. The builders do not validate their input. For a triangle list with
  indices in \<open>[0, 2^32)\<close> in which some triangle has a vertex index that is not below the
  number of vertices, \<open>setup_links\<close>, the first builder that reads the triangle list,
  raises IndexError from its array access, and so does the constructor: no mesh is
  returned.
\<close>

theorem out_of_range_index_raises:
  assumes bounded: "index_bounded ico_faces" and face: "(a, b, c) \<in> set ico_faces"
    and big: "int (length ico_vertices) \<le> a \<or> int (length ico_vertices) \<le> b \<or>
              int (length ico_vertices) \<le> c"
  shows "setup_links K ico_faces (setup_nodes ico_vertices (new_graph r)) = Inl IndexError \<and>
         construct K r ico_vertices ico_faces = Inl IndexError"
proof -
  let ?g = "setup_nodes ico_vertices (new_graph r)"
  have n: "number_of_nodes ?g = length ico_vertices" by (simp add: setup_nodes_def)
  note es = face_edges[OF face]
  from big obtain e where "e \<in> set (edges_of ico_faces)" "int (number_of_nodes ?g) \<le> fst e"
    unfolding n using es by (metis fst_conv)
  from setup_links_rejects[OF bounded this]
  have 1: "setup_links K ico_faces ?g = Inl IndexError" .
  then have "construct K r ico_vertices ico_faces = Inl IndexError"
    by (simp add: construct_def ebind_def)
  with 1 show ?thesis by blast
qed

theorem out_of_range_index_raises_witness:
  "index_bounded out_of_range_faces \<and> (0, 1, 3) \<in> set out_of_range_faces \<and>
   int (length pillow_points) \<le> 3 \<and>
   construct sample_kernel 1 pillow_points out_of_range_faces = Inl IndexError"
proof -
  have b: "index_bounded out_of_range_faces"
    by (simp add: index_bounded_def out_of_range_faces_def)
  have f: "(0, 1, 3) \<in> set out_of_range_faces" by (simp add: out_of_range_faces_def)
  have l: "int (length pillow_points) \<le> 3" by (simp add: pillow_points_def)
  then have "int (length pillow_points) \<le> 0 \<or> int (length pillow_points) \<le> 1 \<or>
      int (length pillow_points) \<le> 3" by simp
  from out_of_range_index_raises[OF b f this, of sample_kernel 1]
  have "construct sample_kernel 1 pillow_points out_of_range_faces = Inl IndexError" by simp
  with b f l show ?thesis by blast
qed

text \<open>
  The claim as stated fails: with the index -1, which numpy resolves to the last node,
  the constructor returns a mesh; a triangle list with repeated vertices passes
  \<open>setup_links\<close>, which records a link from node 0 to itself.
\<close>

theorem unvalidated_input_counterexample:
  "\<not> isl (construct sample_kernel 1 pillow_points negative_index_faces) \<and>
   \<not> isl (setup_links sample_kernel degenerate_faces (setup_nodes pillow_points (new_graph 1)))"
proof -
  have 1: "\<not> isl (construct sample_kernel 1 pillow_points negative_index_faces)"
    by (simp add: construct_def pillow_points_def negative_index_faces_def
     setup_links_def setup_nodes_def new_graph_def add_link_def link_key_def
     link_body_def enter_link_end_def
     setup_patches_and_corners_def enter_corner_def set_coords_of_corner_def
     corner_of_patch_def cross_def vsub_def veclen_def sqrt4
     sort_corners_ccw_def sort_node_def phi_of_node_def theta_of_node_def
     setup_node_spherical_coords_def corner_angle_def arctan2_def
     sample_kernel_def
     setup_faces_def register_edge_def face_of_link_def
     setup_cells_def area_of_cell_at_def ev)
  have 2: "\<not> isl (setup_links sample_kernel degenerate_faces (setup_nodes pillow_points (new_graph 1)))"
    by (simp add: pillow_points_def degenerate_faces_def
     setup_links_def setup_nodes_def new_graph_def add_link_def link_key_def
     link_body_def enter_link_end_def sample_kernel_def ev)
  from 1 2 show ?thesis by blast
qed

end
